theory Spec2Isabelle
  imports Main
begin

section \<open>Shallow embedding of \<open>run_download_goes_ir_vis_l1b_glm_l2_data.py\<close>\<close>

text \<open>
  The script has one function, \<open>run_download_goes_ir_vis_l1b_glm_l2_data\<close>. It walks an
  hourly cursor over a time window, lists blobs of a cloud bucket, downloads and mirrors
  them, and returns the list \<open>outroot0\<close> of date directories.

  The model follows the source line by line. Library calls are given by their documented
  meaning (\<open>datetime\<close>, \<open>os.path\<close>, \<open>re.split\<close>, \<open>str.format\<close>); the calls into
  \<open>new_model.gcs_processing\<close>, whose code is not part of the script, are answered by a
  \<open>world\<close> and logged in a trace of events.
\<close>

subsection \<open>Strings: \<open>str.format\<close>, \<open>os.path\<close>, \<open>re.split\<close>\<close>

text \<open>\<open>str(n)\<close> for a non-negative integer.\<close>

definition digit :: "nat \<Rightarrow> char" where
  "digit k = ''0123456789'' ! (k mod 10)"

fun str :: "nat \<Rightarrow> string" where
  "str n = (if n < 10 then [digit n] else str (n div 10) @ [digit n])"

declare str.simps [simp del]

text \<open>\<open>'{:0wd}'.format(n)\<close>: the decimal digits, padded with zeros on the left to width \<open>w\<close>.\<close>

definition zfill :: "nat \<Rightarrow> nat \<Rightarrow> string" where
  "zfill w n = replicate (w - length (str n)) (CHR ''0'') @ str n"

text \<open>\<open>str.upper\<close> and \<open>str.lower\<close> on ASCII letters; every other byte is left as it is.\<close>

definition upper_char :: "char \<Rightarrow> char" where
  "upper_char c =
     (case map_of (zip ''abcdefghijklmnopqrstuvwxyz'' ''ABCDEFGHIJKLMNOPQRSTUVWXYZ'') c of
        None \<Rightarrow> c | Some u \<Rightarrow> u)"

definition lower_char :: "char \<Rightarrow> char" where
  "lower_char c =
     (case map_of (zip ''ABCDEFGHIJKLMNOPQRSTUVWXYZ'' ''abcdefghijklmnopqrstuvwxyz'') c of
        None \<Rightarrow> c | Some l \<Rightarrow> l)"

definition lower :: "string \<Rightarrow> string" where
  "lower s = map lower_char s"

text \<open>
  \<open>os.path.join(a, b)\<close> (posixpath): an absolute \<open>b\<close> replaces \<open>a\<close>; otherwise the two are
  joined by one separator unless \<open>a\<close> is empty or already ends with one.
\<close>

definition path_join :: "string \<Rightarrow> string \<Rightarrow> string" where
  "path_join a b =
     (if b \<noteq> [] \<and> hd b = CHR ''/'' then b
      else if a = [] \<or> last a = CHR ''/'' then a @ b
      else a @ CHR ''/'' # b)"

text \<open>\<open>os.path.basename(p)\<close>: what follows the last separator.\<close>

definition basename :: "string \<Rightarrow> string" where
  "basename p = rev (takeWhile (\<lambda>c. c \<noteq> CHR ''/'') (rev p))"

text \<open>
  \<open>re.split('_s|_', s)\<close>: the string is cut at every underscore; an \<open>s\<close> that follows the
  underscore belongs to the delimiter (the first alternative wins). Empty pieces are kept.
\<close>

fun re_split :: "string \<Rightarrow> string list" where
  "re_split [] = [[]]"
| "re_split (c # cs) =
     (if c = CHR ''_'' then
        (case cs of
           [] \<Rightarrow> [] # re_split cs
         | d # ds \<Rightarrow> if d = CHR ''s'' then [] # re_split ds else [] # re_split cs)
      else (case re_split cs of [] \<Rightarrow> [[c]] | t # ts \<Rightarrow> (c # t) # ts))"

text \<open>Python list indexing with a non-negative index: out of range raises \<open>IndexError\<close>.\<close>

definition index :: "'a list \<Rightarrow> nat \<Rightarrow> 'a option" where
  "index xs i = (if i < length xs then Some (xs ! i) else None)"

text \<open>Python slices \<open>xs[k:]\<close> (a negative \<open>k\<close> counts from the end, clipped at 0) and \<open>xs[:k]\<close>.\<close>

definition slice_from :: "int \<Rightarrow> 'a list \<Rightarrow> 'a list" where
  "slice_from k xs = (if 0 \<le> k then drop (nat k) xs else drop (nat (int (length xs) + k)) xs)"

definition slice_to :: "nat \<Rightarrow> 'a list \<Rightarrow> 'a list" where
  "slice_to k xs = take k xs"

subsection \<open>\<open>datetime\<close>\<close>

record datetime =
  year :: nat
  month :: nat
  day :: nat
  hour :: nat
  minute :: nat
  second :: nat
  microsecond :: nat

definition is_leap :: "nat \<Rightarrow> bool" where
  "is_leap y = (y mod 4 = 0 \<and> (y mod 100 \<noteq> 0 \<or> y mod 400 = 0))"

definition days_in_month :: "nat \<Rightarrow> nat \<Rightarrow> nat" where
  "days_in_month y m =
     (if m = 2 then (if is_leap y then 29 else 28)
      else if m = 4 \<or> m = 6 \<or> m = 9 \<or> m = 11 then 30 else 31)"

definition days_before_month :: "nat \<Rightarrow> nat \<Rightarrow> nat" where
  "days_before_month y m =
     [0, 31, 59, 90, 120, 151, 181, 212, 243, 273, 304, 334] ! (m - 1)
       + (if 2 < m \<and> is_leap y then 1 else 0)"

definition days_before_year :: "nat \<Rightarrow> nat" where
  "days_before_year y = (y - 1) * 365 + (y - 1) div 4 - (y - 1) div 100 + (y - 1) div 400"

text \<open>The datetimes Python can hold: years 1 to 9999 of the proleptic Gregorian calendar.\<close>

definition valid_datetime :: "datetime \<Rightarrow> bool" where
  "valid_datetime d =
     (1 \<le> year d \<and> year d \<le> 9999 \<and> 1 \<le> month d \<and> month d \<le> 12 \<and>
      1 \<le> day d \<and> day d \<le> days_in_month (year d) (month d) \<and>
      hour d < 24 \<and> minute d < 60 \<and> second d < 60 \<and> microsecond d < 1000000)"

text \<open>\<open>date.toordinal()\<close> and \<open>date.timetuple().tm_yday\<close>.\<close>

definition toordinal :: "datetime \<Rightarrow> nat" where
  "toordinal d = days_before_year (year d) + days_before_month (year d) (month d) + day d"

definition tm_yday :: "datetime \<Rightarrow> nat" where
  "tm_yday d = days_before_month (year d) (month d) + day d"

text \<open>Microseconds since the start of day 0: \<open>a - b\<close> on datetimes is the difference of these.\<close>

definition total_us :: "datetime \<Rightarrow> nat" where
  "total_us d =
     (((toordinal d * 24 + hour d) * 60 + minute d) * 60 + second d) * 1000000 + microsecond d"

text \<open>\<open>a >= b\<close> compares the fields in order, as Python compares the tuples.\<close>

definition dt_fields :: "datetime \<Rightarrow> nat list" where
  "dt_fields d = [year d, month d, day d, hour d, minute d, second d, microsecond d]"

fun lex_le :: "nat list \<Rightarrow> nat list \<Rightarrow> bool" where
  "lex_le [] ys = True"
| "lex_le (x # xs) [] = False"
| "lex_le (x # xs) (y # ys) = (x < y \<or> (x = y \<and> lex_le xs ys))"

definition dt_ge :: "datetime \<Rightarrow> datetime \<Rightarrow> bool" where
  "dt_ge a b = lex_le (dt_fields b) (dt_fields a)"

text \<open>
  \<open>d + timedelta(hours = 1)\<close> and \<open>d - timedelta(...)\<close>, with the carry into day, month and
  year; \<open>None\<close> is Python's \<open>OverflowError\<close> when the result leaves the years 1 to 9999.
\<close>

definition next_day :: "datetime \<Rightarrow> datetime option" where
  "next_day d =
     (if day d < days_in_month (year d) (month d) then Some (d\<lparr>day := day d + 1\<rparr>)
      else if month d < 12 then Some (d\<lparr>month := month d + 1, day := 1\<rparr>)
      else if year d < 9999 then Some (d\<lparr>year := year d + 1, month := 1, day := 1\<rparr>)
      else None)"

definition prev_day :: "datetime \<Rightarrow> datetime option" where
  "prev_day d =
     (if 1 < day d then Some (d\<lparr>day := day d - 1\<rparr>)
      else if 1 < month d then
        Some (d\<lparr>month := month d - 1, day := days_in_month (year d) (month d - 1)\<rparr>)
      else if 1 < year d then Some (d\<lparr>year := year d - 1, month := 12, day := 31\<rparr>)
      else None)"

definition add_hour :: "datetime \<Rightarrow> datetime option" where
  "add_hour d =
     (if hour d < 23 then Some (d\<lparr>hour := hour d + 1\<rparr>)
      else map_option (\<lambda>e. e\<lparr>hour := 0\<rparr>) (next_day d))"

definition sub_hour :: "datetime \<Rightarrow> datetime option" where
  "sub_hour d =
     (if 0 < hour d then Some (d\<lparr>hour := hour d - 1\<rparr>)
      else map_option (\<lambda>e. e\<lparr>hour := 23\<rparr>) (prev_day d))"

text \<open>\<open>d - timedelta(minutes = k)\<close> for \<open>k < 60\<close>.\<close>

definition sub_minutes :: "nat \<Rightarrow> datetime \<Rightarrow> datetime option" where
  "sub_minutes k d =
     (if k \<le> minute d then Some (d\<lparr>minute := minute d - k\<rparr>)
      else map_option (\<lambda>e. e\<lparr>minute := minute d + 60 - k\<rparr>) (sub_hour d))"

text \<open>\<open>strftime\<close> with the two formats the script uses.\<close>

definition strftime_ymd :: "datetime \<Rightarrow> string" where
  "strftime_ymd d = zfill 4 (year d) @ zfill 2 (month d) @ zfill 2 (day d)"

definition strftime_full :: "datetime \<Rightarrow> string" where
  "strftime_full d =
     zfill 4 (year d) @ ''-'' @ zfill 2 (month d) @ ''-'' @ zfill 2 (day d) @ ''-'' @
     zfill 2 (hour d) @ ''-'' @ zfill 2 (minute d) @ ''-'' @ zfill 2 (second d)"

text \<open>
  The formatted pieces of a listing request: \<open>'s{}{:03d}{:02d}'.format(date.year, day_num,
  date.hour)\<close> and \<open>'{}/{}/{:03d}/{:02d}/'.format(prod, date.year, day_num, date.hour)\<close>.
\<close>

definition stamp :: "datetime \<Rightarrow> string" where
  "stamp date = ''s'' @ str (year date) @ zfill 3 (tm_yday date) @ zfill 2 (hour date)"

definition prefix_of :: "string \<Rightarrow> datetime \<Rightarrow> string" where
  "prefix_of product date =
     product @ ''/'' @ str (year date) @ ''/'' @ zfill 3 (tm_yday date) @ ''/'' @
     zfill 2 (hour date) @ ''/''"

definition glm_prod :: string where
  "glm_prod = ''GLM-L2-LCFA''"

subsection \<open>The world outside the script\<close>

text \<open>
  \<open>download_ncdf_gcs\<close> returns the path of the local file, or the sentinel \<open>-1\<close> when the
  download failed.
\<close>

datatype outval = LocalPath string | Failed

text \<open>
  What the script does to the outside, in order: prints, the calls of \<open>list_gcs\<close>,
  \<open>os.makedirs\<close>, \<open>download_ncdf_gcs\<close> and \<open>copy_blob_gcs\<close> with their arguments, and the
  worker pool of a given size with the argument tuples of its \<open>download_gcp_parallel\<close> tasks.
\<close>

datatype event =
    Print string
  | ListGcs string string "string list"
  | Makedirs string
  | DownloadNcdf string string string
  | CopyBlob string string string string
  | PoolApply nat "(nat \<times> string list \<times> string \<times> string) list"

text \<open>
  The answers of the outside. A listing and a download are answered by the number of
  external calls answered before (the \<open>clock\<close> of the state) and the arguments, so the same
  request can get another answer later. \<open>strptime\<close> is \<open>None\<close> where Python raises
  \<open>ValueError\<close>. External calls are taken to return.
\<close>

record world =
  utcnow :: datetime
  strptime :: "string \<Rightarrow> datetime option"
  realpath :: "string \<Rightarrow> string"
  list_gcs :: "nat \<Rightarrow> string \<Rightarrow> string \<Rightarrow> string list \<Rightarrow> string list"
  download_ncdf_gcs :: "nat \<Rightarrow> string \<Rightarrow> string \<Rightarrow> string \<Rightarrow> outval"

datatype error = IndexError | NameError | TypeError | OverflowError | ValueError | SystemExit

subsection \<open>Arguments, derived constants and local variables\<close>

text \<open>The keyword arguments of the function.\<close>

record config =
  date1 :: "string option"
  date2 :: "string option"
  outroot :: string
  sat :: string
  sector :: string
  no_glm :: bool
  no_vis :: bool
  no_ir :: bool
  no_irdiff :: bool
  gcs_bucket :: "string option"
  del_local :: bool
  verbose :: bool

text \<open>The values fixed before the loop (lines 122 to 152).\<close>

record ctx =
  cfg :: config
  real_outroot :: string
  bucket_name :: string
  ir_vis_prod :: string
  sector0 :: string
  rt :: bool

text \<open>
  The local variables that live across blocks, the clock and the trace. \<open>outdir\<close> and
  \<open>outfile\<close> are \<open>None\<close> until their first assignment; \<open>files\<close> is assigned before every
  read.
\<close>

record state =
  clock :: nat
  trace :: "event list"
  files :: "string list"
  outdir :: "string option"
  outfile :: "outval option"

definition init_state :: state where
  "init_state = \<lparr>clock = 0, trace = [], files = [], outdir = None, outfile = None\<rparr>"

definition emit :: "event \<Rightarrow> state \<Rightarrow> state" where
  "emit e st = st\<lparr>trace := trace st @ [e]\<rparr>"

text \<open>\<open>list_gcs(b, p, subs)\<close>: the answer and the state after the call.\<close>

definition call_list_gcs ::
  "world \<Rightarrow> string \<Rightarrow> string \<Rightarrow> string list \<Rightarrow> state \<Rightarrow> string list \<times> state" where
  "call_list_gcs w b p subs st =
     (list_gcs w (clock st) b p subs,
      st\<lparr>clock := clock st + 1, trace := trace st @ [ListGcs b p subs]\<rparr>)"

text \<open>\<open>files = list_gcs(b, p, subs)\<close>.\<close>

definition assign_list :: "world \<Rightarrow> string \<Rightarrow> string \<Rightarrow> string list \<Rightarrow> state \<Rightarrow> state" where
  "assign_list w b p subs st =
     (snd (call_list_gcs w b p subs st))\<lparr>files := fst (call_list_gcs w b p subs st)\<rparr>"

text \<open>\<open>outfile = download_ncdf_gcs(b, i, od)\<close>.\<close>

definition download :: "world \<Rightarrow> string \<Rightarrow> string \<Rightarrow> string \<Rightarrow> state \<Rightarrow> state" where
  "download w b i od st =
     st\<lparr>clock := clock st + 1, trace := trace st @ [DownloadNcdf b i od],
        outfile := Some (download_ncdf_gcs w (clock st) b i od)\<rparr>"

subsection \<open>The polling loop\<close>

text \<open>
  Lines 171 to 174, 196 to 199 and 222 to 225:
  \<^verbatim>\<open>while True: files = list_gcs(...); if len(files) > 0: break\<close>.
  The loop need not end: \<open>None\<close> is the run that never leaves it.
\<close>

partial_function (option) wait_files ::
  "world \<Rightarrow> string \<Rightarrow> string \<Rightarrow> string list \<Rightarrow> state \<Rightarrow> state option" where
  "wait_files w b p subs st =
     (if 0 < length (files (assign_list w b p subs st)) then Some (assign_list w b p subs st)
      else wait_files w b p subs (assign_list w b p subs st))"

subsection \<open>Transfers\<close>

text \<open>
  The body of \<open>for i in files:\<close> at lines 182 to 186 (and its copies for the other
  categories): download unless \<open>del_local\<close>, copy to the mirror bucket when there is one.
\<close>

definition mirror_key :: "datetime \<Rightarrow> string \<Rightarrow> string \<Rightarrow> string" where
  "mirror_key date cat i = path_join (path_join (strftime_ymd date) cat) (basename i)"

definition transfer_blob ::
  "world \<Rightarrow> ctx \<Rightarrow> datetime \<Rightarrow> string \<Rightarrow> string \<Rightarrow> string \<Rightarrow> state \<Rightarrow> state" where
  "transfer_blob w c date cat od i st =
     (let st1 = (if del_local (cfg c) = False then download w (bucket_name c) i od st else st)
      in case gcs_bucket (cfg c) of
           None \<Rightarrow> st1
         | Some g \<Rightarrow> emit (CopyBlob (bucket_name c) i g (mirror_key date cat i)) st1)"

fun transfer_all ::
  "world \<Rightarrow> ctx \<Rightarrow> datetime \<Rightarrow> string \<Rightarrow> string \<Rightarrow> string list \<Rightarrow> state \<Rightarrow> state" where
  "transfer_all w c date cat od [] st = st"
| "transfer_all w c date cat od (i # is) st =
     transfer_all w c date cat od is (transfer_blob w c date cat od i st)"

text \<open>\<open>os.path.join(outroot, date.strftime("%Y%m%d"), cat)\<close>.\<close>

definition outdir_of :: "ctx \<Rightarrow> datetime \<Rightarrow> string \<Rightarrow> string" where
  "outdir_of c date cat = path_join (path_join (real_outroot c) (strftime_ymd date)) cat"

text \<open>
  Lines 176 to 189, 202 to 214 and 228 to 242, which differ in the directory name and in
  the message only: with a non-empty listing, make the directory, keep the last blob in
  real time, and transfer; else print.
\<close>

definition fetch_images ::
  "world \<Rightarrow> ctx \<Rightarrow> datetime \<Rightarrow> string \<Rightarrow> string \<Rightarrow> state \<Rightarrow> state" where
  "fetch_images w c date cat label st =
     (if 0 < length (files st) then
        (let od = outdir_of c date cat;
             st1 = emit (Makedirs od) (st\<lparr>outdir := Some od\<rparr>);
             st2 = (if rt c = True then st1\<lparr>files := [last (files st1)]\<rparr> else st1)
         in transfer_all w c date cat od (files st2) st2)
      else emit (Print (''No '' @ label @ '' files found for '' @ strftime_full date)) st)"

subsection \<open>Infrared, visible and 6.2 micron blocks\<close>

text \<open>
  Lines 167 to 189. In real time an empty listing prints once and then polls with the same
  request.
\<close>

definition ir_query :: "ctx \<Rightarrow> datetime \<Rightarrow> string list" where
  "ir_query c date = [''C13'', stamp date, sector0 c]"

definition ir_step :: "world \<Rightarrow> ctx \<Rightarrow> datetime \<Rightarrow> state \<Rightarrow> (error \<times> state + state) option" where
  "ir_step w c date st =
     (if no_ir (cfg c) = False then
        (let p = prefix_of (ir_vis_prod c) date;
             st1 = assign_list w (bucket_name c) p (ir_query c date) st
         in map_option (\<lambda>s. Inr (fetch_images w c date ''ir'' ''IR'' s))
              (if length (files st1) = 0 \<and> rt c = True then
                 wait_files w (bucket_name c) p (ir_query c date)
                   (emit (Print ''Waiting for IR C13 files to be available online'') st1)
               else Some st1))
      else Some (Inr st))"

text \<open>
  \<open>re.split('_s|_', os.path.basename(files[0]))[3]\<close> (lines 193 and 218); \<open>None\<close> is the
  \<open>IndexError\<close> of either subscript.
\<close>

definition batch_id :: "string list \<Rightarrow> string option" where
  "batch_id fs =
     (case index fs 0 of
        None \<Rightarrow> None
      | Some f \<Rightarrow> index (re_split (basename f)) 3)"

text \<open>
  Lines 191 to 214 (\<open>C02\<close>, \<open>vis\<close>) and 216 to 242 (\<open>C08\<close>, \<open>ir_diff\<close>), which differ in
  the channel, the directory, the messages, and in that only the second prints before it
  polls.
\<close>

definition correlated_step ::
  "world \<Rightarrow> ctx \<Rightarrow> datetime \<Rightarrow> bool \<Rightarrow> string \<Rightarrow> string \<Rightarrow> string \<Rightarrow> string option \<Rightarrow> state
     \<Rightarrow> (error \<times> state + state) option" where
  "correlated_step w c date disabled chan cat label waiting st =
     (if disabled = False then
        (let p = prefix_of (ir_vis_prod c) date in
         if rt c = True \<and> no_ir (cfg c) = False then
           (case batch_id (files st) of
              None \<Rightarrow> Some (Inl (IndexError, st))
            | Some fb \<Rightarrow>
                (let q = [chan, stamp date, sector0 c, fb];
                     st1 = assign_list w (bucket_name c) p q st
                 in map_option (\<lambda>s. Inr (fetch_images w c date cat label s))
                      (if length (files st1) = 0 then
                         wait_files w (bucket_name c) p q
                           (case waiting of None \<Rightarrow> st1 | Some msg \<Rightarrow> emit (Print msg) st1)
                       else Some st1)))
         else
           Some (Inr (fetch_images w c date cat label
             (assign_list w (bucket_name c) p [chan, stamp date, sector0 c] st))))
      else Some (Inr st))"

definition vis_step :: "world \<Rightarrow> ctx \<Rightarrow> datetime \<Rightarrow> state \<Rightarrow> (error \<times> state + state) option" where
  "vis_step w c date st =
     correlated_step w c date (no_vis (cfg c)) ''C02'' ''vis'' ''VIS'' None st"

definition irdiff_step :: "world \<Rightarrow> ctx \<Rightarrow> datetime \<Rightarrow> state \<Rightarrow> (error \<times> state + state) option" where
  "irdiff_step w c date st =
     correlated_step w c date (no_irdiff (cfg c)) ''C08'' ''ir_diff'' ''6.2 micron IR''
       (Some ''Waiting for IR C08 files to be available online'') st"

subsection \<open>Lightning block\<close>

text \<open>Lines 246 to 267: the listing of the cursor's hour.\<close>

definition glm_current :: "world \<Rightarrow> ctx \<Rightarrow> datetime \<Rightarrow> state \<Rightarrow> state" where
  "glm_current w c date st =
     (if 0 < length (files st) then
        (let od = outdir_of c date ''glm'';
             st1 = emit (Makedirs od) (st\<lparr>outdir := Some od\<rparr>)
         in if rt c = True then
              (if sector0 c = ''F'' then st1\<lparr>files := slice_from (- 30) (files st1)\<rparr>
               else if sector0 c = ''C'' then st1\<lparr>files := slice_from (- 15) (files st1)\<rparr>
               else st1\<lparr>files := slice_from (- 10) (files st1)\<rparr>)
            else transfer_all w c date ''glm'' od (files st1) st1)
      else emit (Print (''No GLM files found for '' @ strftime_full date)) st)"

text \<open>
  Lines 283 to 288, the loop of the historical backfill. Its copy reads \<open>outfile\<close>:
  unassigned it raises \<open>NameError\<close>, and \<open>os.path.basename(-1)\<close> raises \<open>TypeError\<close>. The
  key is \<open>pref + os.path.basename(outfile)\<close>.
\<close>

fun backfill ::
  "world \<Rightarrow> ctx \<Rightarrow> datetime \<Rightarrow> string \<Rightarrow> string list \<Rightarrow> state \<Rightarrow> error \<times> state + state" where
  "backfill w c date od [] st = Inr st"
| "backfill w c date od (i # is) st =
     (let st1 = (if del_local (cfg c) = False then download w (bucket_name c) i od st else st)
      in case gcs_bucket (cfg c) of
           None \<Rightarrow> backfill w c date od is st1
         | Some g \<Rightarrow>
             (case outfile st1 of
                None \<Rightarrow> Inl (NameError, st1)
              | Some Failed \<Rightarrow> Inl (TypeError, st1)
              | Some (LocalPath f) \<Rightarrow>
                  backfill w c date od is
                    (emit (CopyBlob (bucket_name c) i g
                       (path_join (strftime_ymd date) ''glm'' @ basename f)) st1)))"

text \<open>Lines 268 to 289: the listing of the hour before, when the minute is below 3.\<close>

definition glm_previous :: "world \<Rightarrow> ctx \<Rightarrow> datetime \<Rightarrow> state \<Rightarrow> error \<times> state + state" where
  "glm_previous w c date st =
     (if minute date < 3 then
        (case sub_hour date of
           None \<Rightarrow> Inl (OverflowError, st)
         | Some date0 \<Rightarrow>
             (let r = call_list_gcs w (bucket_name c) (prefix_of glm_prod date0)
                        [''GLM'', stamp date0] st;
                  files0 = fst r;
                  st1 = snd r
              in if 0 < length files0 then
                   (let od = outdir_of c date ''glm'';
                        st2 = emit (Makedirs od) (st1\<lparr>outdir := Some od\<rparr>)
                    in if rt c = True then
                         (let val = - 8 + int (minute date) * 3
                          in Inr (st2\<lparr>files := files st2 @ slice_from (- val) files0\<rparr>))
                       else
                         backfill w c date od (slice_from (- 8) files0)
                           (st2\<lparr>files := slice_from (- 8) files0\<rparr>))
                 else Inr st1))
      else Inr st)"

text \<open>
  Lines 290 to 299: in real time the kept blobs go to a pool of 5 workers, one task per
  index, and are then copied to the mirror bucket. The tasks read \<open>outdir\<close>.
\<close>

fun copy_all :: "ctx \<Rightarrow> datetime \<Rightarrow> string \<Rightarrow> string list \<Rightarrow> state \<Rightarrow> state" where
  "copy_all c date g [] st = st"
| "copy_all c date g (i # is) st =
     copy_all c date g is (emit (CopyBlob (bucket_name c) i g (mirror_key date ''glm'' i)) st)"

definition pool_download :: "ctx \<Rightarrow> state \<Rightarrow> error \<times> state + state" where
  "pool_download c st =
     (case outdir st of
        None \<Rightarrow> (if files st = [] then Inr (emit (PoolApply 5 []) st) else Inl (NameError, st))
      | Some od \<Rightarrow>
          Inr (emit (PoolApply 5
                 (map (\<lambda>row. (row, files st, bucket_name c, od)) [0 ..< length (files st)])) st))"

definition glm_realtime :: "ctx \<Rightarrow> datetime \<Rightarrow> state \<Rightarrow> error \<times> state + state" where
  "glm_realtime c date st =
     (if rt c = True then
        (case (if del_local (cfg c) = False then pool_download c st else Inr st) of
           Inl e \<Rightarrow> Inl e
         | Inr st1 \<Rightarrow>
             (case gcs_bucket (cfg c) of
                None \<Rightarrow> Inr st1
              | Some g \<Rightarrow> Inr (copy_all c date g (files st1) st1)))
      else Inr st)"

text \<open>Lines 301 to 316: the listing of the hour after, in a historical run past minute 55.\<close>

definition glm_next :: "world \<Rightarrow> ctx \<Rightarrow> datetime \<Rightarrow> state \<Rightarrow> error \<times> state + state" where
  "glm_next w c date st =
     (if 55 < minute date \<and> rt c = False then
        (case add_hour date of
           None \<Rightarrow> Inl (OverflowError, st)
         | Some date0 \<Rightarrow>
             (let st1 = assign_list w (bucket_name c) (prefix_of glm_prod date0)
                          [''GLM'', stamp date0] st
              in if 0 < length (files st1) then
                   (let od = outdir_of c date ''glm'';
                        st2 = emit (Makedirs od) (st1\<lparr>outdir := Some od\<rparr>);
                        st3 = st2\<lparr>files := slice_to 8 (files st2)\<rparr>
                    in Inr (transfer_all w c date ''glm'' od (files st3) st3))
                 else Inr st1))
      else Inr st)"

text \<open>Lines 244 to 316.\<close>

definition glm_step :: "world \<Rightarrow> ctx \<Rightarrow> datetime \<Rightarrow> state \<Rightarrow> error \<times> state + state" where
  "glm_step w c date st =
     (if no_glm (cfg c) = False then
        (let st1 = assign_list w (bucket_name c) (prefix_of glm_prod date) [''GLM'', stamp date] st
         in case glm_previous w c date (glm_current w c date st1) of
              Inl e \<Rightarrow> Inl e
            | Inr st2 \<Rightarrow>
                (case glm_realtime c date st2 of
                   Inl e \<Rightarrow> Inl e
                 | Inr st3 \<Rightarrow> glm_next w c date st3))
      else Inr st)"

subsection \<open>The loop and the function\<close>

definition and_then ::
  "(error \<times> state + state) option \<Rightarrow> (state \<Rightarrow> (error \<times> state + state) option)
     \<Rightarrow> (error \<times> state + state) option" where
  "and_then r f = (case r of None \<Rightarrow> None | Some (Inl e) \<Rightarrow> Some (Inl e) | Some (Inr st) \<Rightarrow> f st)"

text \<open>Lines 163 to 316: one pass of the loop body, up to the update of \<open>outroot0\<close>.\<close>

definition body :: "world \<Rightarrow> ctx \<Rightarrow> datetime \<Rightarrow> state \<Rightarrow> (error \<times> state + state) option" where
  "body w c date st =
     and_then (and_then (and_then (ir_step w c date st) (vis_step w c date))
       (irdiff_step w c date)) (\<lambda>s. Some (glm_step w c date s))"

text \<open>Lines 318 to 321: the update of \<open>outroot0\<close>.\<close>

definition manifest_step :: "ctx \<Rightarrow> datetime \<Rightarrow> string list \<Rightarrow> string list" where
  "manifest_step c date outroot0 =
     (if length outroot0 = 0 then outroot0 @ [path_join (real_outroot c) (strftime_ymd date)]
      else if strftime_ymd date \<noteq> basename (last outroot0)
        then outroot0 @ [path_join (real_outroot c) (strftime_ymd date)]
      else outroot0)"

text \<open>
  Lines 162 to 324: \<open>while date2 >= date\<close> (\<open>date2'\<close> is the parsed end), the body, the update of \<open>outroot0\<close> and
  \<open>date = date + timedelta(hours = 1)\<close>; then \<open>return(outroot0)\<close>. \<open>None\<close> is a run that
  polls forever.
\<close>

partial_function (option) loop ::
  "world \<Rightarrow> ctx \<Rightarrow> datetime \<Rightarrow> datetime \<Rightarrow> state \<Rightarrow> string list
     \<Rightarrow> (error \<times> state + string list \<times> state) option" where
  "loop w c date2' date st outroot0 =
     (if dt_ge date2' date then
        (case body w c date st of
           None \<Rightarrow> None
         | Some (Inl e) \<Rightarrow> Some (Inl e)
         | Some (Inr st1) \<Rightarrow>
             (case add_hour date of
                None \<Rightarrow> Some (Inl (OverflowError, st1))
              | Some date' \<Rightarrow> loop w c date2' date' st1 (manifest_step c date outroot0)))
      else Some (Inr (outroot0, st)))"

text \<open>Lines 125 to 136: the sector code; \<open>None\<close> is the branch that prints and exits.\<close>

definition sector_code :: "string \<Rightarrow> string option" where
  "sector_code s =
     (if s = ''meso1'' then Some ([upper_char (hd s)] @ ''1'')
      else if s = ''meso2'' then Some ([upper_char (hd s)] @ ''2'')
      else if s = ''conus'' then Some ''C''
      else if s = ''full'' then Some ''F''
      else None)"

text \<open>Lines 141 to 147: the real-time start, moved back for the slower sectors.\<close>

definition realtime_start :: "world \<Rightarrow> string \<Rightarrow> datetime option" where
  "realtime_start w s0 =
     (if s0 = ''F'' \<or> s0 = ''C'' then
        (if minute (utcnow w) < 10 \<and> s0 = ''F'' then sub_minutes 10 (utcnow w)
         else if minute (utcnow w) < 4 \<and> s0 = ''C'' then sub_minutes 5 (utcnow w)
         else Some (utcnow w))
      else Some (utcnow w))"

definition say :: "bool \<Rightarrow> string \<Rightarrow> state \<Rightarrow> state" where
  "say v msg st = (if v = True then emit (Print msg) st else st)"

text \<open>
  Lines 122 to 161: everything before the loop. The result is the constants, the start and
  the end of the window, and the state with what was printed.
\<close>

definition prepare :: "world \<Rightarrow> config \<Rightarrow> error \<times> state + ctx \<times> datetime \<times> datetime \<times> state" where
  "prepare w cf =
     (case index (sector cf) 0 of
        None \<Rightarrow> Inl (IndexError, init_state)
      | Some s0 \<Rightarrow>
          (case sector_code (sector cf) of
             None \<Rightarrow>
               Inl (SystemExit,
                    emit (Print (sector cf))
                      (emit (Print ''Not yet set up to do specified sector'') init_state))
           | Some sc \<Rightarrow>
               (let c = \<lambda>r. \<lparr>cfg = cf, real_outroot = realpath w (outroot cf),
                              bucket_name = ''gcp-public-data-'' @ lower (sat cf),
                              ir_vis_prod = ''ABI-L1b-Rad'' @ [upper_char s0],
                              sector0 = sc, rt = r\<rparr>;
                    date2s = (if date2 cf = None \<and> date1 cf \<noteq> None then date1 cf else date2 cf);
                    fin = say (verbose cf) (''Files downloaded to outroot '' @ realpath w (outroot cf))
                in case date1 cf of
                     None \<Rightarrow>
                       (case realtime_start w sc of
                          None \<Rightarrow> Inl (OverflowError, init_state)
                        | Some d1 \<Rightarrow> Inr (c True, d1, d1, fin init_state))
                   | Some s1 \<Rightarrow>
                       (case strptime w s1 of
                          None \<Rightarrow> Inl (ValueError, init_state)
                        | Some d1 \<Rightarrow>
                            (case (case date2s of None \<Rightarrow> Some d1 | Some s2 \<Rightarrow> strptime w s2) of
                               None \<Rightarrow> Inl (ValueError, init_state)
                             | Some d2 \<Rightarrow>
                                 Inr (c False, d1, d2,
                                   fin (say (verbose cf)
                                     (''Downloading dates : '' @ strftime_full d1 @ '' - '' @
                                        strftime_full d2) init_state)))))))"

text \<open>
  The function: an error with the state at the raise, or the returned \<open>outroot0\<close> with the
  final state; \<open>None\<close> when it never returns.
\<close>

definition run_download_goes_ir_vis_l1b_glm_l2_data ::
  "world \<Rightarrow> config \<Rightarrow> (error \<times> state + string list \<times> state) option" where
  "run_download_goes_ir_vis_l1b_glm_l2_data w cf =
     (case prepare w cf of
        Inl e \<Rightarrow> Some (Inl e)
      | Inr (c, d1, d2, st) \<Rightarrow> loop w c d2 d1 st [])"

section \<open>Notions used in the statements\<close>

text \<open>Events by kind.\<close>

definition is_listing :: "event \<Rightarrow> bool" where
  "is_listing e = (case e of ListGcs b p q \<Rightarrow> True | _ \<Rightarrow> False)"

definition is_download :: "event \<Rightarrow> bool" where
  "is_download e = (case e of DownloadNcdf b i od \<Rightarrow> True | _ \<Rightarrow> False)"

text \<open>The argument tuples of all pool tasks of a trace, and the sizes of its pools.\<close>

fun pool_tasks :: "event list \<Rightarrow> (nat \<times> string list \<times> string \<times> string) list" where
  "pool_tasks [] = []"
| "pool_tasks (PoolApply n ts # es) = ts @ pool_tasks es"
| "pool_tasks (e # es) = pool_tasks es"

fun pool_sizes :: "event list \<Rightarrow> nat list" where
  "pool_sizes [] = []"
| "pool_sizes (PoolApply n ts # es) = n # pool_sizes es"
| "pool_sizes (e # es) = pool_sizes es"

text \<open>The number of lightning blobs kept in real time, by sector code (lines 250 to 255).\<close>

definition glm_keep :: "string \<Rightarrow> nat" where
  "glm_keep s0 = (if s0 = ''F'' then 30 else if s0 = ''C'' then 15 else 10)"

text \<open>The state a run ends in, returned or raised.\<close>

definition final_state :: "error \<times> state + string list \<times> state \<Rightarrow> state" where
  "final_state r = (case r of Inl (e, st) \<Rightarrow> st | Inr (m, st) \<Rightarrow> st)"

subsection \<open>Concrete inputs\<close>

definition example_config :: config where
  "example_config =
     \<lparr>date1 = None, date2 = None, outroot = ''/data'', sat = ''goes-16'', sector = ''meso2'',
      no_glm = False, no_vis = False, no_ir = False, no_irdiff = False,
      gcs_bucket = Some ''mirror'', del_local = False, verbose = True\<rparr>"

definition example_ctx :: ctx where
  "example_ctx =
     \<lparr>cfg = example_config, real_outroot = ''/data'', bucket_name = ''gcp-public-data-goes-16'',
      ir_vis_prod = ''ABI-L1b-RadM'', sector0 = ''M2'', rt = True\<rparr>"

definition example_date :: datetime where
  "example_date =
     \<lparr>year = 2020, month = 6, day = 1, hour = 0, minute = 1, second = 0, microsecond = 0\<rparr>"

definition hour_before :: datetime where
  "hour_before =
     \<lparr>year = 2020, month = 5, day = 31, hour = 23, minute = 1, second = 0, microsecond = 0\<rparr>"

text \<open>A world that lists twelve lightning blobs first and six afterwards.\<close>

definition glm_world :: world where
  "glm_world =
     \<lparr>utcnow = example_date, strptime = (\<lambda>s. None), realpath = (\<lambda>p. p),
      list_gcs = (\<lambda>k b p q. if k = 0
         then [''g01'', ''g02'', ''g03'', ''g04'', ''g05'', ''g06'', ''g07'', ''g08'', ''g09'',
               ''g10'', ''g11'', ''g12'']
         else [''h1'', ''h2'', ''h3'', ''h4'', ''h5'', ''h6'']),
      download_ncdf_gcs = (\<lambda>k b i od. LocalPath (path_join od (basename i)))\<rparr>"

text \<open>The number of image listings of one historical pass.\<close>

definition images_listed :: "ctx \<Rightarrow> nat" where
  "images_listed c =
     (if no_ir (cfg c) then 0 else 1) + (if no_vis (cfg c) then 0 else 1) +
     (if no_irdiff (cfg c) then 0 else 1)"

text \<open>
  A historical run of one hour, midnight of 1 June 2020, lightning only, with a mirror
  bucket; every listing answers one blob under the requested prefix.
\<close>

definition hist_date :: datetime where
  "hist_date =
     \<lparr>year = 2020, month = 6, day = 1, hour = 0, minute = 0, second = 0, microsecond = 0\<rparr>"

definition hist_world :: world where
  "hist_world =
     \<lparr>utcnow = hist_date,
      strptime = (\<lambda>s. if s = ''2020-06-01 00:00:00'' then Some hist_date else None),
      realpath = (\<lambda>p. p),
      list_gcs = (\<lambda>k b p q. [p @ ''OR_GLM.nc'']),
      download_ncdf_gcs = (\<lambda>k b i od. LocalPath (path_join od (basename i)))\<rparr>"

definition hist_config :: config where
  "hist_config =
     \<lparr>date1 = Some ''2020-06-01 00:00:00'', date2 = None, outroot = ''/data'', sat = ''goes-16'',
      sector = ''conus'', no_glm = False, no_vis = True, no_ir = True, no_irdiff = True,
      gcs_bucket = Some ''mirror'', del_local = False, verbose = False\<rparr>"

definition hist_ctx :: "config \<Rightarrow> ctx" where
  "hist_ctx cf =
     \<lparr>cfg = cf, real_outroot = ''/data'', bucket_name = ''gcp-public-data-goes-16'',
      ir_vis_prod = ''ABI-L1b-RadC'', sector0 = ''C'', rt = False\<rparr>"

text \<open>The trace of that run.\<close>

definition backfill_trace :: "event list" where
  "backfill_trace =
          [ListGcs ''gcp-public-data-goes-16'' ''GLM-L2-LCFA/2020/153/00/'' [''GLM'', ''s202015300''],
           Makedirs ''/data/20200601/glm'',
           DownloadNcdf ''gcp-public-data-goes-16'' ''GLM-L2-LCFA/2020/153/00/OR_GLM.nc''
             ''/data/20200601/glm'',
           CopyBlob ''gcp-public-data-goes-16'' ''GLM-L2-LCFA/2020/153/00/OR_GLM.nc'' ''mirror''
             ''20200601/glm/OR_GLM.nc'',
           ListGcs ''gcp-public-data-goes-16'' ''GLM-L2-LCFA/2020/152/23/'' [''GLM'', ''s202015223''],
           Makedirs ''/data/20200601/glm'',
           DownloadNcdf ''gcp-public-data-goes-16'' ''GLM-L2-LCFA/2020/152/23/OR_GLM.nc''
             ''/data/20200601/glm'',
           CopyBlob ''gcp-public-data-goes-16'' ''GLM-L2-LCFA/2020/152/23/OR_GLM.nc'' ''mirror''
             ''20200601/glmOR_GLM.nc'']"

text \<open>
  Two real-time worlds: one whose listings are empty for the first two requests, one whose
  listings are always empty.
\<close>

definition poll_world :: world where
  "poll_world =
     \<lparr>utcnow = example_date, strptime = (\<lambda>s. None), realpath = (\<lambda>p. p),
      list_gcs = (\<lambda>k b p q. if k < 2 then [] else [p @ ''OR_C13.nc'']),
      download_ncdf_gcs = (\<lambda>k b i od. LocalPath (path_join od (basename i)))\<rparr>"

definition silent_world :: world where
  "silent_world =
     \<lparr>utcnow = example_date, strptime = (\<lambda>s. None), realpath = (\<lambda>p. p),
      list_gcs = (\<lambda>k b p q. []),
      download_ncdf_gcs = (\<lambda>k b i od. LocalPath (path_join od (basename i)))\<rparr>"

text \<open>What is printed between the first request of a correlated block and its polling.\<close>

definition waiting_events :: "string option \<Rightarrow> event list" where
  "waiting_events waiting = (case waiting of None \<Rightarrow> [] | Some msg \<Rightarrow> [Print msg])"

text \<open>
  A real-time run for sector \<open>meso2\<close> at 00:01 on 1 June 2020, infrared and visible (and,
  unless switched off, 6.2 micron) enabled, in a world whose third answer is empty; and
  the trace of the run with 6.2 micron switched off.
\<close>

definition rt_config :: config where
  "rt_config =
     \<lparr>date1 = None, date2 = None, outroot = ''/data'', sat = ''goes-16'', sector = ''meso2'',
      no_glm = True, no_vis = False, no_ir = False, no_irdiff = False,
      gcs_bucket = None, del_local = False, verbose = False\<rparr>"

definition rt_ctx :: "config \<Rightarrow> ctx" where
  "rt_ctx cf =
     \<lparr>cfg = cf, real_outroot = ''/data'', bucket_name = ''gcp-public-data-goes-16'',
      ir_vis_prod = ''ABI-L1b-RadM'', sector0 = ''M2'', rt = True\<rparr>"

definition late_world :: world where
  "late_world =
     \<lparr>utcnow = example_date, strptime = (\<lambda>s. None), realpath = (\<lambda>p. p),
      list_gcs = (\<lambda>k b p q. if k = 2 then []
         else [p @ ''OR_ABI-L1b-RadM2-M6'' @ hd q @ ''_G16_s20201530001000_e1_c1.nc'']),
      download_ncdf_gcs = (\<lambda>k b i od. LocalPath (path_join od (basename i)))\<rparr>"

definition late_trace :: "event list" where
  "late_trace =
     [ListGcs ''gcp-public-data-goes-16'' ''ABI-L1b-RadM/2020/153/00/''
        [''C13'', ''s202015300'', ''M2''],
      Makedirs ''/data/20200601/ir'',
      DownloadNcdf ''gcp-public-data-goes-16''
        ''ABI-L1b-RadM/2020/153/00/OR_ABI-L1b-RadM2-M6C13_G16_s20201530001000_e1_c1.nc''
        ''/data/20200601/ir'',
      ListGcs ''gcp-public-data-goes-16'' ''ABI-L1b-RadM/2020/153/00/''
        [''C02'', ''s202015300'', ''M2'', ''20201530001000''],
      ListGcs ''gcp-public-data-goes-16'' ''ABI-L1b-RadM/2020/153/00/''
        [''C02'', ''s202015300'', ''M2'', ''20201530001000''],
      Makedirs ''/data/20200601/vis'',
      DownloadNcdf ''gcp-public-data-goes-16''
        ''ABI-L1b-RadM/2020/153/00/OR_ABI-L1b-RadM2-M6C02_G16_s20201530001000_e1_c1.nc''
        ''/data/20200601/vis'']"

text \<open>A state in which the infrared block has selected one blob.\<close>

definition ir_selected :: state where
  "ir_selected =
     init_state\<lparr>files :=
       [''ABI-L1b-RadM/2020/153/00/OR_ABI-L1b-RadM2-M6C13_G16_s20201530001000_e1_c1.nc'']\<rparr>"

text \<open>The events of the transfer of one blob (lines 182 to 186).\<close>

definition transfer_events :: "ctx \<Rightarrow> datetime \<Rightarrow> string \<Rightarrow> string \<Rightarrow> string \<Rightarrow> event list" where
  "transfer_events c date cat od i =
     (if del_local (cfg c) = False then [DownloadNcdf (bucket_name c) i od] else []) @
     (case gcs_bucket (cfg c) of
        None \<Rightarrow> []
      | Some g \<Rightarrow> [CopyBlob (bucket_name c) i g (mirror_key date cat i)])"

text \<open>
  A real-time world in which the names of the visible and 6.2 micron blobs carry one more
  field before the scan start; and the listing requests of the run in it.
\<close>

definition tagged_world :: world where
  "tagged_world =
     \<lparr>utcnow = example_date, strptime = (\<lambda>s. None), realpath = (\<lambda>p. p),
      list_gcs = (\<lambda>k b p q.
         [p @ ''OR_ABI-L1b-RadM2-M6'' @ hd q @ (if hd q = ''C13'' then ''_G16'' else ''_G16_v2'') @
            ''_s20201530001000_e1_c1.nc'']),
      download_ncdf_gcs = (\<lambda>k b i od. LocalPath (path_join od (basename i)))\<rparr>"

definition tagged_listings :: "event list" where
  "tagged_listings =
     [ListGcs ''gcp-public-data-goes-16'' ''ABI-L1b-RadM/2020/153/00/''
        [''C13'', ''s202015300'', ''M2''],
      ListGcs ''gcp-public-data-goes-16'' ''ABI-L1b-RadM/2020/153/00/''
        [''C02'', ''s202015300'', ''M2'', ''20201530001000''],
      ListGcs ''gcp-public-data-goes-16'' ''ABI-L1b-RadM/2020/153/00/''
        [''C08'', ''s202015300'', ''M2'', ''v2'']]"

text \<open>One hour in microseconds, and the order of two datetimes by calendar day.\<close>

definition hour_us :: nat where
  "hour_us = 3600000000"

definition ymd_less :: "datetime \<Rightarrow> datetime \<Rightarrow> bool" where
  "ymd_less b a =
     (year b < year a \<or> (year b = year a \<and> (month b < month a \<or>
        (month b = month a \<and> day b < day a))))"

text \<open>
  \<open>n\<close> passes of the loop one after the other, each the body, the update of \<open>outroot0\<close> and
  the step of the cursor (lines 163 to 322), without the test of line 162: the cursor, the
  list and the state after them, or the error that stopped them.
\<close>

fun passes ::
  "world \<Rightarrow> ctx \<Rightarrow> nat \<Rightarrow> datetime \<Rightarrow> state \<Rightarrow> string list
     \<Rightarrow> (error \<times> state + datetime \<times> string list \<times> state) option" where
  "passes w c 0 date st outroot0 = Some (Inr (date, outroot0, st))"
| "passes w c (Suc n) date st outroot0 =
     (case body w c date st of
        None \<Rightarrow> None
      | Some (Inl e) \<Rightarrow> Some (Inl e)
      | Some (Inr st1) \<Rightarrow>
          (case add_hour date of
             None \<Rightarrow> Some (Inl (OverflowError, st1))
           | Some date' \<Rightarrow> passes w c n date' st1 (manifest_step c date outroot0)))"

text \<open>What the function returns after such passes.\<close>

definition finish ::
  "(error \<times> state + datetime \<times> string list \<times> state) option
     \<Rightarrow> (error \<times> state + string list \<times> state) option" where
  "finish r =
     (case r of
        None \<Rightarrow> None
      | Some (Inl e) \<Rightarrow> Some (Inl e)
      | Some (Inr (d, outroot0, st)) \<Rightarrow> Some (Inr (outroot0, st)))"

text \<open>The cursors of \<open>n\<close> passes that start at a datetime.\<close>

fun cursors :: "nat \<Rightarrow> datetime \<Rightarrow> datetime list" where
  "cursors 0 d = []"
| "cursors (Suc n) d = d # (case add_hour d of None \<Rightarrow> [] | Some e \<Rightarrow> cursors n e)"









text \<open>
  The update of the list of days, on the day strings alone: a day is appended when the list
  is empty or ends with another day.
\<close>

definition day_step :: "string \<Rightarrow> string list \<Rightarrow> string list" where
  "day_step k ks = (if ks = [] then [k] else if k \<noteq> last ks then ks @ [k] else ks)"

text \<open>A historical window across midnight, with every category switched off.\<close>

definition night_start :: datetime where
  "night_start =
     \<lparr>year = 2020, month = 6, day = 1, hour = 23, minute = 0, second = 0, microsecond = 0\<rparr>"

definition night_end :: datetime where
  "night_end =
     \<lparr>year = 2020, month = 6, day = 2, hour = 0, minute = 30, second = 0, microsecond = 0\<rparr>"

definition night_world :: world where
  "night_world =
     hist_world\<lparr>strptime :=
       (\<lambda>s. if s = ''2020-06-01 23:00:00'' then Some night_start
            else if s = ''2020-06-02 00:30:00'' then Some night_end else None)\<rparr>"

definition night_config :: config where
  "night_config =
     hist_config\<lparr>date1 := Some ''2020-06-01 23:00:00'', date2 := Some ''2020-06-02 00:30:00'',
       no_glm := True\<rparr>"

section \<open>Properties\<close>

subsection \<open>Decimal formatting\<close>

lemma digit0: "digit 0 = CHR ''0''"
  by (simp add: digit_def)

lemma str1: "n < 10 \<Longrightarrow> str n = [digit n]"
  by (subst str.simps) simp

lemma str2: "10 \<le> n \<Longrightarrow> n < 100 \<Longrightarrow> str n = [digit (n div 10), digit n]"
  by (subst str.simps) (simp add: str1)

lemma str3:
  "100 \<le> n \<Longrightarrow> n < 1000 \<Longrightarrow> str n = [digit (n div 100), digit (n div 10), digit n]"
  by (subst str.simps) (simp add: str2 div_mult2_eq[symmetric])

lemma str4:
  "1000 \<le> n \<Longrightarrow> n < 10000 \<Longrightarrow>
   str n = [digit (n div 1000), digit (n div 100), digit (n div 10), digit n]"
  by (subst str.simps) (simp add: str3 div_mult2_eq[symmetric])

lemma digit_small:
  "n < 10 \<Longrightarrow> digit (n div 10) = CHR ''0''"
  "n < 100 \<Longrightarrow> digit (n div 100) = CHR ''0''"
  "n < 1000 \<Longrightarrow> digit (n div 1000) = CHR ''0''"
  by (simp_all add: digit_def)

lemma replicate_small:
  "replicate 1 x = [x]" "replicate 2 x = [x, x]" "replicate 3 x = [x, x, x]"
  by (simp_all add: numeral_2_eq_2 numeral_3_eq_3)

lemma zfill2: "n < 100 \<Longrightarrow> zfill 2 n = [digit (n div 10), digit n]"
  by (cases "n < 10") (simp_all add: zfill_def str1 str2 digit_small replicate_small digit0)

lemma zfill3: "n < 1000 \<Longrightarrow> zfill 3 n = [digit (n div 100), digit (n div 10), digit n]"
  by (cases "n < 10"; cases "n < 100")
    (simp_all add: zfill_def str1 str2 str3 digit_small replicate_small digit0)

lemma zfill4:
  "n < 10000 \<Longrightarrow>
   zfill 4 n = [digit (n div 1000), digit (n div 100), digit (n div 10), digit n]"
  by (cases "n < 10"; cases "n < 100"; cases "n < 1000")
    (simp_all add: zfill_def str1 str2 str3 str4 digit_small replicate_small digit0)

subsection \<open>The lightning block in real time\<close>

lemma copy_all_eq:
  "copy_all c date g is st =
     st\<lparr>trace := trace st @ map (\<lambda>i. CopyBlob (bucket_name c) i g (mirror_key date ''glm'' i)) is\<rparr>"
  by (induction "is" arbitrary: st) (simp_all add: emit_def)

lemma slice_from_neg_length: "0 < n \<Longrightarrow> length (slice_from (- int n) xs) \<le> n"
  by (simp add: slice_from_def)

lemma slice_from_Nil [simp]: "slice_from k [] = []"
  by (simp add: slice_from_def)

lemma filter_listing_copies [simp]: "filter is_listing (map (\<lambda>i. CopyBlob b i g (k i)) is) = []"
  by (induction "is") (simp_all add: is_listing_def)

lemma glm_current_rt:
  assumes "rt c = True"
  shows "\<exists>evs. trace (glm_current w c date st) = trace st @ evs \<and> filter is_listing evs = []"
    and "files (glm_current w c date st) = slice_from (- int (glm_keep (sector0 c))) (files st)"
    and "clock (glm_current w c date st) = clock st"
    and "files st \<noteq> [] \<Longrightarrow> outdir (glm_current w c date st) \<noteq> None"
  using assms by (simp_all add: glm_current_def glm_keep_def Let_def emit_def is_listing_def)

lemma glm_previous_rt:
  assumes "rt c = True" "minute date < 3" "sub_hour date = Some date0"
  shows "\<exists>st' evs. glm_previous w c date st = Inr st' \<and>
           files st' = files st @ slice_from (8 - 3 * int (minute date))
             (list_gcs w (clock st) (bucket_name c) (prefix_of glm_prod date0) [''GLM'', stamp date0]) \<and>
           trace st' = trace st @ evs \<and>
           filter is_listing evs = [ListGcs (bucket_name c) (prefix_of glm_prod date0) [''GLM'', stamp date0]] \<and>
           (files st' \<noteq> files st \<longrightarrow> outdir st' \<noteq> None) \<and>
           (outdir st \<noteq> None \<longrightarrow> outdir st' \<noteq> None)"
  using assms by (simp add: glm_previous_def call_list_gcs_def Let_def emit_def is_listing_def mult.commute)

lemma glm_previous_skip:
  assumes "\<not> minute date < 3"
  shows "glm_previous w c date st = Inr st"
  using assms by (simp add: glm_previous_def)

lemma glm_realtime_rt:
  assumes "rt c = True" "files st \<noteq> [] \<longrightarrow> outdir st \<noteq> None"
  shows "\<exists>st' evs. glm_realtime c date st = Inr st' \<and> files st' = files st \<and>
           trace st' = trace st @ evs \<and> filter is_listing evs = []"
  using assms
  by (auto simp add: glm_realtime_def pool_download_def copy_all_eq emit_def is_listing_def
      split: option.splits)

lemma glm_next_rt: "rt c = True \<Longrightarrow> glm_next w c date st = Inr st"
  by (simp add: glm_next_def)

lemma assign_list_simps [simp]:
  "files (assign_list w b p q st) = list_gcs w (clock st) b p q"
  "clock (assign_list w b p q st) = clock st + 1"
  "trace (assign_list w b p q st) = trace st @ [ListGcs b p q]"
  "outdir (assign_list w b p q st) = outdir st"
  "outfile (assign_list w b p q st) = outfile st"
  by (simp_all add: assign_list_def call_list_gcs_def)

text \<open>
  C5. In a real-time pass with lightning enabled, the blobs kept from the listing of the
  cursor's hour are its last 30 (sector code \<open>F\<close>), last 15 (\<open>C\<close>) or last 10 (otherwise),
  so at most that many; the listing of the hour before is requested, and a slice of it
  appended, exactly when the cursor's minute is below 3.
\<close>

theorem glm_realtime_selection:
  assumes rt: "rt c = True" and glm: "no_glm (cfg c) = False"
    and prev: "minute date < 3 \<longrightarrow> sub_hour date = Some date0"
  shows "\<exists>st' evs. glm_step w c date st = Inr st' \<and> trace st' = trace st @ evs \<and>
           files st' =
             slice_from (- int (glm_keep (sector0 c)))
               (list_gcs w (clock st) (bucket_name c) (prefix_of glm_prod date) [''GLM'', stamp date]) @
             (if minute date < 3
              then slice_from (8 - 3 * int (minute date))
                     (list_gcs w (clock st + 1) (bucket_name c) (prefix_of glm_prod date0)
                        [''GLM'', stamp date0])
              else []) \<and>
           length (slice_from (- int (glm_keep (sector0 c)))
               (list_gcs w (clock st) (bucket_name c) (prefix_of glm_prod date) [''GLM'', stamp date]))
             \<le> glm_keep (sector0 c) \<and>
           filter is_listing evs =
             ListGcs (bucket_name c) (prefix_of glm_prod date) [''GLM'', stamp date] #
             (if minute date < 3
              then [ListGcs (bucket_name c) (prefix_of glm_prod date0) [''GLM'', stamp date0]]
              else [])"
proof -
  let ?q = "[''GLM'', stamp date]"
  let ?s1 = "assign_list w (bucket_name c) (prefix_of glm_prod date) ?q st"
  let ?s2 = "glm_current w c date ?s1"
  let ?L = "list_gcs w (clock st) (bucket_name c) (prefix_of glm_prod date) ?q"
  obtain e2 where t2: "trace ?s2 = trace ?s1 @ e2" "filter is_listing e2 = []"
    using glm_current_rt(1)[OF rt] by blast
  have f2: "files ?s2 = slice_from (- int (glm_keep (sector0 c))) ?L"
    using glm_current_rt(2)[OF rt, of w date ?s1] by simp
  have c2: "clock ?s2 = clock st + 1"
    using glm_current_rt(3)[OF rt, of w date ?s1] by simp
  have o2: "files ?s2 \<noteq> [] \<longrightarrow> outdir ?s2 \<noteq> None"
    using glm_current_rt(4)[OF rt, of ?s1 w date] f2 by (cases "?L = []") simp_all
  have len: "length (slice_from (- int (glm_keep (sector0 c))) ?L) \<le> glm_keep (sector0 c)"
    by (rule slice_from_neg_length) (simp add: glm_keep_def)
  obtain s3 e3 where s3: "glm_previous w c date ?s2 = Inr s3" "trace s3 = trace ?s2 @ e3"
    "files s3 = files ?s2 @ (if minute date < 3
       then slice_from (8 - 3 * int (minute date))
              (list_gcs w (clock st + 1) (bucket_name c) (prefix_of glm_prod date0) [''GLM'', stamp date0])
       else [])"
    "filter is_listing e3 = (if minute date < 3
       then [ListGcs (bucket_name c) (prefix_of glm_prod date0) [''GLM'', stamp date0]] else [])"
    "files s3 \<noteq> [] \<longrightarrow> outdir s3 \<noteq> None"
  proof (cases "minute date < 3")
    case True
    with prev have sh: "sub_hour date = Some date0" by simp
    from glm_previous_rt[OF rt True sh, of w ?s2] obtain s' e' where
      a: "glm_previous w c date ?s2 = Inr s'" "trace s' = trace ?s2 @ e'"
      and b: "files s' = files ?s2 @ slice_from (8 - 3 * int (minute date))
             (list_gcs w (clock ?s2) (bucket_name c) (prefix_of glm_prod date0) [''GLM'', stamp date0])"
      and d: "filter is_listing e' = [ListGcs (bucket_name c) (prefix_of glm_prod date0) [''GLM'', stamp date0]]"
      and e: "files s' \<noteq> files ?s2 \<longrightarrow> outdir s' \<noteq> None" "outdir ?s2 \<noteq> None \<longrightarrow> outdir s' \<noteq> None"
      by blast
    have "files s' \<noteq> [] \<longrightarrow> outdir s' \<noteq> None"
      using e o2 by (cases "files s' = files ?s2") auto
    with a b d True c2 show ?thesis
      by (intro that[of s' e']) simp_all
  next
    case False
    with glm_previous_skip[OF False, of w c ?s2] o2 that show ?thesis by simp
  qed
  obtain s4 e4 where s4: "glm_realtime c date s3 = Inr s4" "files s4 = files s3"
    "trace s4 = trace s3 @ e4" "filter is_listing e4 = []"
    using glm_realtime_rt[OF rt s3(5)] by blast
  have "glm_step w c date st = Inr s4"
    using glm s3(1) s4(1) glm_next_rt[OF rt] by (simp add: glm_step_def Let_def)
  moreover have "trace s4 = trace st @ (ListGcs (bucket_name c) (prefix_of glm_prod date) ?q # e2 @ e3 @ e4)"
    using s4(3) s3(2) t2(1) by simp
  moreover have "filter is_listing (ListGcs (bucket_name c) (prefix_of glm_prod date) ?q # e2 @ e3 @ e4)
     = ListGcs (bucket_name c) (prefix_of glm_prod date) ?q #
       (if minute date < 3
        then [ListGcs (bucket_name c) (prefix_of glm_prod date0) [''GLM'', stamp date0]] else [])"
    using t2(2) s3(4) s4(4) by (simp add: is_listing_def)
  ultimately show ?thesis
    using s4(2) s3(3) f2 len by (metis (no_types, lifting))
qed

lemma sub_hour_example: "sub_hour example_date = Some hour_before"
  by (simp add: sub_hour_def prev_day_def example_date_def hour_before_def days_in_month_def)

theorem glm_realtime_selection_witness:
  "rt example_ctx = True \<and> no_glm (cfg example_ctx) = False \<and>
   minute example_date < 3 \<and> sub_hour example_date = Some hour_before \<and>
   (\<exists>st'. glm_step glm_world example_ctx example_date init_state = Inr st' \<and>
      files st' = [''g03'', ''g04'', ''g05'', ''g06'', ''g07'', ''g08'', ''g09'', ''g10'', ''g11'',
                   ''g12'', ''h6''])"
proof -
  have h1: "rt example_ctx = True" and h2: "no_glm (cfg example_ctx) = False"
    by (simp_all add: example_ctx_def example_config_def)
  have h3: "minute example_date < 3 \<longrightarrow> sub_hour example_date = Some hour_before"
    by (simp add: sub_hour_example)
  have m: "minute example_date = 1" by (simp add: example_date_def)
  have k: "glm_keep (sector0 example_ctx) = 10" by (simp add: glm_keep_def example_ctx_def)
  from glm_realtime_selection[OF h1 h2 h3, of glm_world init_state]
  obtain st' where "glm_step glm_world example_ctx example_date init_state = Inr st'"
    and "files st' =
             slice_from (- int (glm_keep (sector0 example_ctx)))
               (list_gcs glm_world (clock init_state) (bucket_name example_ctx) (prefix_of glm_prod example_date) [''GLM'', stamp example_date]) @
             (if minute example_date < 3
              then slice_from (8 - 3 * int (minute example_date))
                     (list_gcs glm_world (clock init_state + 1) (bucket_name example_ctx) (prefix_of glm_prod hour_before)
                        [''GLM'', stamp hour_before])
              else [])"
    by blast
  then show ?thesis using h1 h2
    by (simp add: m k sub_hour_example glm_world_def init_state_def slice_from_def)
qed

subsection \<open>The sector code\<close>

lemma sector_code_table:
  "sector_code ''meso1'' = Some ''M1''" "sector_code ''meso2'' = Some ''M2''"
  "sector_code ''conus'' = Some ''C''" "sector_code ''full'' = Some ''F''"
  by (simp_all add: sector_code_def upper_char_def)

lemma sector_code_other:
  "s \<notin> {''meso1'', ''meso2'', ''conus'', ''full''} \<Longrightarrow> sector_code s = None"
  by (simp add: sector_code_def)

text \<open>
  A sector outside the table that is not empty: the two lines are printed and the run exits,
  with nothing else done.
\<close>

lemma run_unsupported_sector:
  assumes "sector cf \<notin> {''meso1'', ''meso2'', ''conus'', ''full''}" "sector cf \<noteq> []"
  shows "run_download_goes_ir_vis_l1b_glm_l2_data w cf =
           Some (Inl (SystemExit,
             init_state\<lparr>trace := [Print ''Not yet set up to do specified sector'',
                                  Print (sector cf)]\<rparr>))"
  using assms
  by (simp add: run_download_goes_ir_vis_l1b_glm_l2_data_def prepare_def sector_code_other
      index_def emit_def init_state_def)

text \<open>
  C7 at the empty sector string: \<open>sector[0]\<close> at line 124 raises \<open>IndexError\<close> before the
  check of lines 125 to 136 is reached; nothing is printed, listed or transferred.
\<close>

theorem run_empty_sector:
  "run_download_goes_ir_vis_l1b_glm_l2_data w (cf\<lparr>sector := []\<rparr>) =
     Some (Inl (IndexError, init_state)) \<and> trace init_state = []"
  by (simp add: run_download_goes_ir_vis_l1b_glm_l2_data_def prepare_def index_def
      init_state_def)

subsection \<open>The historical backfill reads \<open>outfile\<close>\<close>

lemma transfer_all_del_local:
  "del_local (cfg c) = True \<Longrightarrow>
   transfer_all w c date cat od is st =
     st\<lparr>trace := trace st @
       (case gcs_bucket (cfg c) of None \<Rightarrow> []
        | Some g \<Rightarrow> map (\<lambda>i. CopyBlob (bucket_name c) i g (mirror_key date cat i)) is)\<rparr>"
  by (induction "is" arbitrary: st) (simp_all add: transfer_blob_def emit_def split: option.splits)

lemma fetch_images_del_local:
  assumes "del_local (cfg c) = True" "rt c = False"
  shows "clock (fetch_images w c date cat label st) = clock st"
    and "outfile (fetch_images w c date cat label st) = outfile st"
  using assms by (simp_all add: fetch_images_def Let_def transfer_all_del_local emit_def)

lemma ir_step_historical:
  assumes "del_local (cfg c) = True" "rt c = False"
  shows "\<exists>st'. ir_step w c date st = Some (Inr st') \<and>
           clock st' = clock st + (if no_ir (cfg c) then 0 else 1) \<and> outfile st' = outfile st"
  using assms by (simp add: ir_step_def Let_def fetch_images_del_local)

lemma correlated_step_historical:
  assumes "del_local (cfg c) = True" "rt c = False"
  shows "\<exists>st'. correlated_step w c date off chan cat label waiting st = Some (Inr st') \<and>
           clock st' = clock st + (if off then 0 else 1) \<and> outfile st' = outfile st"
  using assms by (simp add: correlated_step_def Let_def fetch_images_del_local)

lemma glm_current_del_local:
  assumes "del_local (cfg c) = True" "rt c = False"
  shows "clock (glm_current w c date st) = clock st"
    and "outfile (glm_current w c date st) = outfile st"
  using assms by (simp_all add: glm_current_def Let_def transfer_all_del_local emit_def)

lemma backfill_unassigned:
  assumes "del_local (cfg c) = True" "gcs_bucket (cfg c) = Some g" "outfile st = None" "is \<noteq> []"
  shows "backfill w c date od is st = Inl (NameError, st)"
  using assms by (cases "is") simp_all

lemma glm_previous_unassigned:
  assumes "rt c = False" "minute date < 3" "gcs_bucket (cfg c) = Some g" "del_local (cfg c) = True"
    and "sub_hour date = Some date0" "outfile st = None"
    and "list_gcs w (clock st) (bucket_name c) (prefix_of glm_prod date0) [''GLM'', stamp date0] \<noteq> []"
  shows "\<exists>st'. glm_previous w c date st = Inl (NameError, st') \<and>
           last (trace st') = Makedirs (outdir_of c date ''glm'')"
proof -
  let ?L = "list_gcs w (clock st) (bucket_name c) (prefix_of glm_prod date0) [''GLM'', stamp date0]"
  have ne: "slice_from (- 8) ?L \<noteq> []"
    using assms(7) by (cases ?L) (auto simp add: slice_from_def)
  show ?thesis
    using assms ne
    by (simp add: glm_previous_def call_list_gcs_def Let_def backfill_unassigned emit_def)
qed

text \<open>
  C10. In a historical pass with the minute below 3, lightning enabled, a mirror bucket and
  \<open>del_local\<close> set, where \<open>outfile\<close> is unassigned (no download ever runs under
  \<open>del_local\<close>) and the listing of the hour before is not empty: the pass raises
  \<open>NameError\<close> right after making the directory, before any copy of the backfill.
\<close>

theorem backfill_reads_unassigned_outfile:
  assumes "rt c = False" and "no_glm (cfg c) = False" and "minute date < 3"
    and "gcs_bucket (cfg c) = Some g" and "del_local (cfg c) = True"
    and "sub_hour date = Some date0" and "outfile st = None"
    and "list_gcs w (clock st + images_listed c + 1) (bucket_name c) (prefix_of glm_prod date0)
           [''GLM'', stamp date0] \<noteq> []"
  shows "\<exists>st'. body w c date st = Some (Inl (NameError, st')) \<and>
           last (trace st') = Makedirs (outdir_of c date ''glm'')"
proof -
  obtain s1 where s1: "ir_step w c date st = Some (Inr s1)"
    "clock s1 = clock st + (if no_ir (cfg c) then 0 else 1)" "outfile s1 = outfile st"
    using ir_step_historical[OF assms(5) assms(1)] by blast
  obtain s2 where s2: "vis_step w c date s1 = Some (Inr s2)"
    "clock s2 = clock s1 + (if no_vis (cfg c) then 0 else 1)" "outfile s2 = outfile s1"
    unfolding vis_step_def using correlated_step_historical[OF assms(5) assms(1)] by blast
  obtain s3 where s3: "irdiff_step w c date s2 = Some (Inr s3)"
    "clock s3 = clock s2 + (if no_irdiff (cfg c) then 0 else 1)" "outfile s3 = outfile s2"
    unfolding irdiff_step_def using correlated_step_historical[OF assms(5) assms(1)] by blast
  let ?s4 = "assign_list w (bucket_name c) (prefix_of glm_prod date) [''GLM'', stamp date] s3"
  let ?s5 = "glm_current w c date ?s4"
  have c5: "clock ?s5 = clock st + images_listed c + 1"
    using glm_current_del_local(1)[OF assms(5) assms(1)] s1(2) s2(2) s3(2)
    by (simp add: images_listed_def)
  have o5: "outfile ?s5 = None"
    using glm_current_del_local(2)[OF assms(5) assms(1)] s1(3) s2(3) s3(3) assms(7) by simp
  obtain st' where p: "glm_previous w c date ?s5 = Inl (NameError, st')"
    "last (trace st') = Makedirs (outdir_of c date ''glm'')"
    using glm_previous_unassigned[OF assms(1) assms(3) assms(4) assms(5) assms(6) o5] assms(8) c5
    by auto
  have "glm_step w c date s3 = Inl (NameError, st')"
    using assms(2) p(1) by (simp add: glm_step_def Let_def)
  then have "body w c date st = Some (Inl (NameError, st'))"
    using s1(1) s2(1) s3(1) by (simp add: body_def and_then_def)
  with p(2) show ?thesis by blast
qed

lemma prepare_hist:
  "prepare hist_world hist_config = Inr (hist_ctx hist_config, hist_date, hist_date, init_state)"
  "prepare hist_world (hist_config\<lparr>del_local := True\<rparr>) =
     Inr (hist_ctx (hist_config\<lparr>del_local := True\<rparr>), hist_date, hist_date, init_state)"
  by (simp_all add: prepare_def hist_world_def hist_config_def hist_ctx_def index_def
      sector_code_def say_def lower_def lower_char_def upper_char_def Let_def)

lemma hist_date_facts:
  "strftime_ymd hist_date = ''20200601''"
  "sub_hour hist_date = Some (hist_date\<lparr>month := 5, day := 31, hour := 23\<rparr>)"
  "add_hour hist_date = Some (hist_date\<lparr>hour := Suc 0\<rparr>)"
  "dt_ge hist_date hist_date"
  "\<not> dt_ge hist_date (hist_date\<lparr>hour := Suc 0\<rparr>)"
  "minute hist_date = 0"
  by (simp_all add: strftime_ymd_def zfill4 zfill2 digit_def hist_date_def sub_hour_def
      prev_day_def add_hour_def dt_ge_def dt_fields_def days_in_month_def)

lemma hist_stamps:
  "prefix_of glm_prod hist_date = ''GLM-L2-LCFA/2020/153/00/''"
  "prefix_of glm_prod (hist_date\<lparr>month := 5, day := 31, hour := 23\<rparr>) = ''GLM-L2-LCFA/2020/152/23/''"
  "stamp hist_date = ''s202015300''"
  "stamp (hist_date\<lparr>month := 5, day := 31, hour := 23\<rparr>) = ''s202015223''"
  by (simp_all add: prefix_of_def stamp_def glm_prod_def hist_date_def str4 zfill3 zfill2 digit_def
      tm_yday_def days_before_month_def is_leap_def)

text \<open>
  Under \<open>del_local\<close> a historical pass leaves \<open>outfile\<close> as it found it, so it stays
  unassigned from the start of the run on.
\<close>

lemma backfill_del_local:
  assumes "del_local (cfg c) = True" and "backfill w c date od is st = Inr st'"
  shows "outfile st' = outfile st"
  using assms
proof (induction "is" arbitrary: st)
  case Nil
  then show ?case by simp
next
  case (Cons i "is")
  show ?case
  proof (cases "gcs_bucket (cfg c)")
    case None
    with Cons show ?thesis by simp
  next
    case (Some g)
    with Cons.prems obtain f where f: "outfile st = Some (LocalPath f)"
      and b: "backfill w c date od is
                (emit (CopyBlob (bucket_name c) i g
                   (path_join (strftime_ymd date) ''glm'' @ basename f)) st) = Inr st'"
      by (auto split: option.splits outval.splits)
    from Cons.IH[OF Cons.prems(1) b] show ?thesis by (simp add: emit_def)
  qed
qed

lemma glm_step_del_local:
  assumes d: "del_local (cfg c) = True" and rt: "rt c = False"
    and g: "glm_step w c date st = Inr st'"
  shows "outfile st' = outfile st"
proof (cases "no_glm (cfg c)")
  case True
  with g show ?thesis by (simp add: glm_step_def)
next
  case False
  let ?s1 = "assign_list w (bucket_name c) (prefix_of glm_prod date) [''GLM'', stamp date] st"
  let ?s2 = "glm_current w c date ?s1"
  from g False obtain s3 where p: "glm_previous w c date ?s2 = Inr s3"
    and n: "glm_next w c date s3 = Inr st'"
    using rt by (auto simp add: glm_step_def Let_def glm_realtime_def split: sum.splits)
  have o2: "outfile ?s2 = outfile st"
    using glm_current_del_local(2)[OF d rt, of w date ?s1] by simp
  have o3: "outfile s3 = outfile ?s2"
    using p rt backfill_del_local[OF d]
    by (auto simp add: glm_previous_def Let_def call_list_gcs_def emit_def
        split: if_splits option.splits)
  have "outfile st' = outfile s3"
    using n rt d
    by (auto simp add: glm_next_def Let_def transfer_all_del_local emit_def
        split: if_splits option.splits)
  with o2 o3 show ?thesis by simp
qed

lemma body_keeps_outfile:
  assumes d: "del_local (cfg c) = True" and rt: "rt c = False"
    and b: "body w c date st = Some (Inr st')"
  shows "outfile st' = outfile st"
proof -
  obtain s1 where s1: "ir_step w c date st = Some (Inr s1)" "outfile s1 = outfile st"
    using ir_step_historical[OF d rt] by blast
  obtain s2 where s2: "vis_step w c date s1 = Some (Inr s2)" "outfile s2 = outfile s1"
    unfolding vis_step_def using correlated_step_historical[OF d rt] by blast
  obtain s3 where s3: "irdiff_step w c date s2 = Some (Inr s3)" "outfile s3 = outfile s2"
    unfolding irdiff_step_def using correlated_step_historical[OF d rt] by blast
  from b s1(1) s2(1) s3(1) have "glm_step w c date s3 = Inr st'"
    by (simp add: body_def and_then_def)
  from glm_step_del_local[OF d rt this] s1(2) s2(2) s3(2) show ?thesis by simp
qed

subsection \<open>The mirror key of the historical backfill\<close>

lemma body_hist:
  "body hist_world (hist_ctx hist_config) hist_date init_state =
     Some (Inr \<lparr>clock = 4, trace = backfill_trace,
                files = [''GLM-L2-LCFA/2020/152/23/OR_GLM.nc''],
                outdir = Some ''/data/20200601/glm'',
                outfile = Some (LocalPath ''/data/20200601/glm/OR_GLM.nc'')\<rparr>)"
  apply (simp add: body_def and_then_def ir_step_def vis_step_def irdiff_step_def
      correlated_step_def glm_step_def hist_ctx_def hist_config_def Let_def)
  apply (simp add: hist_date_facts hist_stamps glm_current_def glm_previous_def glm_realtime_def glm_next_def
      call_list_gcs_def assign_list_def hist_world_def Let_def
      outdir_of_def path_join_def emit_def transfer_blob_def download_def mirror_key_def basename_def
      slice_from_def init_state_def backfill_trace_def)
  done

text \<open>
  C9 at a concrete run: historical, minute 0, lightning only, mirror bucket \<open>mirror\<close>, local
  copies kept. The blob of the cursor's hour is copied to \<open>20200601/glm/OR_GLM.nc\<close>; the blob
  of the hour before is copied to \<open>20200601/glmOR_GLM.nc\<close>, without the separator
  (line 288 concatenates where lines 186, 211, 237, 262, 299 and 315 join).
\<close>

theorem backfill_mirror_key_evaluated:
  "\<exists>st. run_download_goes_ir_vis_l1b_glm_l2_data hist_world hist_config =
          Some (Inr ([''/data/20200601''], st)) \<and> trace st = backfill_trace \<and>
        last backfill_trace =
           CopyBlob ''gcp-public-data-goes-16'' ''GLM-L2-LCFA/2020/152/23/OR_GLM.nc'' ''mirror''
             ''20200601/glmOR_GLM.nc''"
  apply (simp add: run_download_goes_ir_vis_l1b_glm_l2_data_def prepare_hist)
  apply (subst loop.simps)
  apply (simp add: hist_date_facts body_hist)
  apply (subst loop.simps)
  apply (simp add: hist_date_facts manifest_step_def hist_ctx_def path_join_def backfill_trace_def)
  done

theorem backfill_reads_unassigned_outfile_witness:
  "rt (hist_ctx (hist_config\<lparr>del_local := True\<rparr>)) = False \<and>
   no_glm (hist_config\<lparr>del_local := True\<rparr>) = False \<and>
   minute hist_date < 3 \<and>
   gcs_bucket (hist_config\<lparr>del_local := True\<rparr>) = Some ''mirror'' \<and>
   del_local (hist_config\<lparr>del_local := True\<rparr>) = True \<and>
   outfile init_state = None \<and>
   (\<exists>st'. run_download_goes_ir_vis_l1b_glm_l2_data hist_world (hist_config\<lparr>del_local := True\<rparr>) =
      Some (Inl (NameError, st')) \<and> last (trace st') = Makedirs ''/data/20200601/glm'')"
proof -
  let ?cf = "hist_config\<lparr>del_local := True\<rparr>"
  let ?c = "hist_ctx ?cf"
  have h: "rt ?c = False" "no_glm (cfg ?c) = False" "minute hist_date < 3"
    "gcs_bucket (cfg ?c) = Some ''mirror''" "del_local (cfg ?c) = True"
    "outfile init_state = None"
    by (simp_all add: hist_ctx_def hist_config_def hist_date_facts init_state_def)
  have l: "list_gcs hist_world (clock init_state + images_listed ?c + 1) (bucket_name ?c)
             (prefix_of glm_prod (hist_date\<lparr>month := 5, day := 31, hour := 23\<rparr>))
             [''GLM'', stamp (hist_date\<lparr>month := 5, day := 31, hour := 23\<rparr>)] \<noteq> []"
    by (simp add: hist_world_def)
  from backfill_reads_unassigned_outfile[OF h(1) h(2) h(3) h(4) h(5) hist_date_facts(2) h(6) l]
  obtain st' where b: "body hist_world ?c hist_date init_state = Some (Inl (NameError, st'))"
    and t: "last (trace st') = Makedirs (outdir_of ?c hist_date ''glm'')"
    by blast
  have od: "outdir_of ?c hist_date ''glm'' = ''/data/20200601/glm''"
    by (simp add: outdir_of_def hist_date_facts hist_ctx_def path_join_def)
  have "run_download_goes_ir_vis_l1b_glm_l2_data hist_world ?cf = Some (Inl (NameError, st'))"
    apply (simp add: run_download_goes_ir_vis_l1b_glm_l2_data_def prepare_hist)
    apply (subst loop.simps)
    apply (simp add: hist_date_facts b)
    done
  with t od h show ?thesis by (simp add: hist_ctx_def)
qed

subsection \<open>The polling loop\<close>

text \<open>
  The loop returns at the first request that is answered with a blob, having issued the
  same request each time; with no such answer it does not return.
\<close>

lemma wait_files_found:
  assumes "list_gcs w (clock st + n) b p q \<noteq> []"
    and "\<forall>k<n. list_gcs w (clock st + k) b p q = []"
  shows "wait_files w b p q st =
           Some (st\<lparr>clock := clock st + n + 1,
                    trace := trace st @ replicate (Suc n) (ListGcs b p q),
                    files := list_gcs w (clock st + n) b p q\<rparr>)"
  using assms
proof (induction n arbitrary: st)
  case 0
  then show ?case
    by (subst wait_files.simps) (simp add: assign_list_def call_list_gcs_def)
next
  case (Suc n)
  let ?s1 = "assign_list w b p q st"
  from Suc.prems(2) have e: "list_gcs w (clock st) b p q = []" by (metis add.right_neutral zero_less_Suc)
  have a: "list_gcs w (clock ?s1 + n) b p q \<noteq> []" using Suc.prems(1) by simp
  have b: "\<forall>k<n. list_gcs w (clock ?s1 + k) b p q = []"
  proof (intro allI impI)
    fix k assume "k < n"
    then have "Suc k < Suc n" by simp
    with Suc.prems(2) have "list_gcs w (clock st + Suc k) b p q = []" by blast
    then show "list_gcs w (clock ?s1 + k) b p q = []" by simp
  qed
  have "wait_files w b p q st = wait_files w b p q ?s1"
    by (subst wait_files.simps) (simp add: e)
  also have "\<dots> = Some (?s1\<lparr>clock := clock ?s1 + n + 1,
                    trace := trace ?s1 @ replicate (Suc n) (ListGcs b p q),
                    files := list_gcs w (clock ?s1 + n) b p q\<rparr>)"
    by (rule Suc.IH[OF a b])
  also have "\<dots> = Some (st\<lparr>clock := clock st + Suc n + 1,
                    trace := trace st @ replicate (Suc (Suc n)) (ListGcs b p q),
                    files := list_gcs w (clock st + Suc n) b p q\<rparr>)"
    by (simp add: assign_list_def call_list_gcs_def)
  finally show ?case .
qed

lemma wait_files_answer:
  assumes "wait_files w b p q st = Some st'"
  shows "\<exists>k. list_gcs w (clock st + k) b p q \<noteq> []"
proof (rule wait_files.raw_induct
    [where P = "\<lambda>w b p q st st'. \<exists>k. list_gcs w (clock st + k) b p q \<noteq> []", OF _ assms])
  fix f w b p q st st'
  assume IH: "\<And>w b p q st y. f w b p q st = Some y \<Longrightarrow> \<exists>k. list_gcs w (clock st + k) b p q \<noteq> []"
    and eq: "(if 0 < length (files (assign_list w b p q st)) then Some (assign_list w b p q st)
              else f w b p q (assign_list w b p q st)) = Some st'"
  show "\<exists>k. list_gcs w (clock st + k) b p q \<noteq> []"
  proof (cases "list_gcs w (clock st) b p q = []")
    case True
    with eq have "f w b p q (assign_list w b p q st) = Some st'" by simp
    from IH[OF this] obtain k where
      "list_gcs w (clock (assign_list w b p q st) + k) b p q \<noteq> []" by blast
    then have "list_gcs w (clock st + Suc k) b p q \<noteq> []" by simp
    then show ?thesis by blast
  next
    case False
    then have "list_gcs w (clock st + 0) b p q \<noteq> []" by simp
    then show ?thesis by blast
  qed
qed

lemma wait_files_never:
  "\<forall>k. list_gcs w (clock st + k) b p q = [] \<Longrightarrow> wait_files w b p q st = None"
  using wait_files_answer[of w b p q st] by (cases "wait_files w b p q st") auto

lemma first_answer:
  assumes "list_gcs w (c + k) b p q \<noteq> []"
  shows "\<exists>n. list_gcs w (c + n) b p q \<noteq> [] \<and> (\<forall>j<n. list_gcs w (c + j) b p q = [])"
proof -
  let ?P = "\<lambda>n. list_gcs w (c + n) b p q \<noteq> []"
  have "?P (LEAST n. ?P n)" using assms by (rule LeastI)
  moreover have "\<forall>j<(LEAST n. ?P n). \<not> ?P j" using not_less_Least by blast
  ultimately show ?thesis by blast
qed

subsection \<open>The infrared block in real time\<close>

lemma lex_le_refl: "lex_le xs xs"
  by (induction xs) simp_all

lemma dt_ge_refl: "dt_ge d d"
  by (simp add: dt_ge_def lex_le_refl)

lemma prepare_realtime:
  assumes "prepare w cf = Inr (c, d1, d2, st)" "rt c = True"
  shows "d2 = d1"
  using assms
  by (auto simp add: prepare_def Let_def split: option.splits if_splits)

lemma ir_step_returns:
  assumes rt: "rt c = True" and ir: "no_ir (cfg c) = False"
    and r: "ir_step w c date st = Some r"
  shows "\<exists>n s. (\<forall>j<n. list_gcs w (clock st + j) (bucket_name c) (prefix_of (ir_vis_prod c) date)
                      (ir_query c date) = []) \<and>
            list_gcs w (clock st + n) (bucket_name c) (prefix_of (ir_vis_prod c) date)
              (ir_query c date) \<noteq> [] \<and>
            r = Inr (fetch_images w c date ''ir'' ''IR'' s) \<and>
            files s = list_gcs w (clock st + n) (bucket_name c) (prefix_of (ir_vis_prod c) date)
              (ir_query c date) \<and>
            trace s = trace st @
              ListGcs (bucket_name c) (prefix_of (ir_vis_prod c) date) (ir_query c date) #
              (if n = 0 then []
               else Print ''Waiting for IR C13 files to be available online'' #
                    replicate n (ListGcs (bucket_name c) (prefix_of (ir_vis_prod c) date)
                      (ir_query c date)))"
proof -
  let ?b = "bucket_name c" and ?p = "prefix_of (ir_vis_prod c) date" and ?q = "ir_query c date"
  let ?s1 = "assign_list w ?b ?p ?q st"
  let ?s1' = "emit (Print ''Waiting for IR C13 files to be available online'') ?s1"
  show ?thesis
  proof (cases "list_gcs w (clock st) ?b ?p ?q = []")
    case False
    with r rt ir have "r = Inr (fetch_images w c date ''ir'' ''IR'' ?s1)"
      by (auto simp add: ir_step_def Let_def)
    with False show ?thesis
      by (intro exI[of _ 0] exI[of _ ?s1]) simp
  next
    case True
    with r rt ir obtain s where s: "wait_files w ?b ?p ?q ?s1' = Some s"
      and rs: "r = Inr (fetch_images w c date ''ir'' ''IR'' s)"
      by (auto simp add: ir_step_def Let_def)
    have c1: "clock ?s1' = clock st + 1" by (simp add: emit_def)
    from wait_files_answer[OF s] obtain k where "list_gcs w (clock ?s1' + k) ?b ?p ?q \<noteq> []"
      by blast
    from first_answer[OF this] obtain m where
      m: "list_gcs w (clock ?s1' + m) ?b ?p ?q \<noteq> []"
         "\<forall>j<m. list_gcs w (clock ?s1' + j) ?b ?p ?q = []"
      by blast
    from wait_files_found[OF m] s have
      se: "s = ?s1'\<lparr>clock := clock ?s1' + m + 1,
                    trace := trace ?s1' @ replicate (Suc m) (ListGcs ?b ?p ?q),
                    files := list_gcs w (clock ?s1' + m) ?b ?p ?q\<rparr>"
      by simp
    have z: "\<forall>j<Suc m. list_gcs w (clock st + j) ?b ?p ?q = []"
    proof (intro allI impI)
      fix j assume j: "j < Suc m"
      show "list_gcs w (clock st + j) ?b ?p ?q = []"
      proof (cases j)
        case 0
        with True show ?thesis by simp
      next
        case (Suc i)
        with j m(2) c1 show ?thesis by simp
      qed
    qed
    from m(1) c1 have nz: "list_gcs w (clock st + Suc m) ?b ?p ?q \<noteq> []" by simp
    show ?thesis
      using z nz rs se c1
      by (intro exI[of _ "Suc m"] exI[of _ s]) (simp add: emit_def)
  qed
qed

lemma ir_step_answered:
  assumes rt: "rt c = True" and ir: "no_ir (cfg c) = False"
    and k: "list_gcs w (clock st + k) (bucket_name c) (prefix_of (ir_vis_prod c) date)
              (ir_query c date) \<noteq> []"
  shows "ir_step w c date st \<noteq> None"
proof -
  let ?b = "bucket_name c" and ?p = "prefix_of (ir_vis_prod c) date" and ?q = "ir_query c date"
  let ?s1 = "assign_list w ?b ?p ?q st"
  let ?s1' = "emit (Print ''Waiting for IR C13 files to be available online'') ?s1"
  show ?thesis
  proof (cases "list_gcs w (clock st) ?b ?p ?q = []")
    case False
    with rt ir show ?thesis by (simp add: ir_step_def Let_def)
  next
    case True
    with k obtain k' where "k = Suc k'" by (cases k) auto
    with k have "list_gcs w (clock ?s1' + k') ?b ?p ?q \<noteq> []" by (simp add: emit_def)
    from first_answer[OF this] obtain m where
      m: "list_gcs w (clock ?s1' + m) ?b ?p ?q \<noteq> []"
         "\<forall>j<m. list_gcs w (clock ?s1' + j) ?b ?p ?q = []"
      by blast
    from wait_files_found[OF m] True rt ir show ?thesis by (simp add: ir_step_def Let_def)
  qed
qed

lemma and_then_None [simp]: "and_then None f = None"
  by (simp add: and_then_def)

lemma body_needs_ir: "ir_step w c date st = None \<Longrightarrow> body w c date st = None"
  by (simp add: body_def)

text \<open>
  C2. In real time with infrared enabled, the infrared block returns exactly when one of
  its listing requests is answered with a blob. When it returns after \<open>n\<close> empty answers,
  all it did before the transfer is the one request, repeated: once, then the waiting
  message, then \<open>n\<close> more times. A run that returns at all has had such an answer.
\<close>

theorem infrared_polling:
  assumes rt: "rt c = True" and ir: "no_ir (cfg c) = False"
  shows "(ir_step w c date st \<noteq> None) =
           (\<exists>k. list_gcs w (clock st + k) (bucket_name c) (prefix_of (ir_vis_prod c) date)
                  (ir_query c date) \<noteq> []) \<and>
         (\<forall>r. ir_step w c date st = Some r \<longrightarrow>
           (\<exists>n s. (\<forall>j<n. list_gcs w (clock st + j) (bucket_name c)
                              (prefix_of (ir_vis_prod c) date) (ir_query c date) = []) \<and>
              list_gcs w (clock st + n) (bucket_name c) (prefix_of (ir_vis_prod c) date)
                (ir_query c date) \<noteq> [] \<and>
              r = Inr (fetch_images w c date ''ir'' ''IR'' s) \<and>
              files s = list_gcs w (clock st + n) (bucket_name c)
                (prefix_of (ir_vis_prod c) date) (ir_query c date) \<and>
              trace s = trace st @
                ListGcs (bucket_name c) (prefix_of (ir_vis_prod c) date) (ir_query c date) #
                (if n = 0 then []
                 else Print ''Waiting for IR C13 files to be available online'' #
                      replicate n (ListGcs (bucket_name c) (prefix_of (ir_vis_prod c) date)
                        (ir_query c date))))) \<and>
         (\<forall>cf date2'. prepare w cf = Inr (c, date, date2', st) \<longrightarrow>
            run_download_goes_ir_vis_l1b_glm_l2_data w cf \<noteq> None \<longrightarrow>
            (\<exists>k. list_gcs w (clock st + k) (bucket_name c) (prefix_of (ir_vis_prod c) date)
                  (ir_query c date) \<noteq> []))"
proof (intro conjI allI impI)
  show "(ir_step w c date st \<noteq> None) =
           (\<exists>k. list_gcs w (clock st + k) (bucket_name c) (prefix_of (ir_vis_prod c) date)
                  (ir_query c date) \<noteq> [])"
  proof
    assume "ir_step w c date st \<noteq> None"
    then obtain r where "ir_step w c date st = Some r" by auto
    from ir_step_returns[OF rt ir this] show "\<exists>k. list_gcs w (clock st + k) (bucket_name c)
        (prefix_of (ir_vis_prod c) date) (ir_query c date) \<noteq> []"
      by blast
  next
    assume "\<exists>k. list_gcs w (clock st + k) (bucket_name c) (prefix_of (ir_vis_prod c) date)
                  (ir_query c date) \<noteq> []"
    then show "ir_step w c date st \<noteq> None" using ir_step_answered[OF rt ir] by blast
  qed
next
  fix r assume "ir_step w c date st = Some r"
  from ir_step_returns[OF rt ir this]
  show "\<exists>n s. (\<forall>j<n. list_gcs w (clock st + j) (bucket_name c)
                              (prefix_of (ir_vis_prod c) date) (ir_query c date) = []) \<and>
              list_gcs w (clock st + n) (bucket_name c) (prefix_of (ir_vis_prod c) date)
                (ir_query c date) \<noteq> [] \<and>
              r = Inr (fetch_images w c date ''ir'' ''IR'' s) \<and>
              files s = list_gcs w (clock st + n) (bucket_name c)
                (prefix_of (ir_vis_prod c) date) (ir_query c date) \<and>
              trace s = trace st @
                ListGcs (bucket_name c) (prefix_of (ir_vis_prod c) date) (ir_query c date) #
                (if n = 0 then []
                 else Print ''Waiting for IR C13 files to be available online'' #
                      replicate n (ListGcs (bucket_name c) (prefix_of (ir_vis_prod c) date)
                        (ir_query c date)))" .
next
  fix cf date2'
  assume p: "prepare w cf = Inr (c, date, date2', st)"
    and t: "run_download_goes_ir_vis_l1b_glm_l2_data w cf \<noteq> None"
  from prepare_realtime[OF p rt] have d: "date2' = date" .
  have "run_download_goes_ir_vis_l1b_glm_l2_data w cf = loop w c date date st []"
    using p d by (simp add: run_download_goes_ir_vis_l1b_glm_l2_data_def)
  with t have "loop w c date date st [] \<noteq> None" by simp
  then have "body w c date st \<noteq> None"
    by (subst (asm) loop.simps) (auto simp add: dt_ge_refl split: option.splits)
  then have "ir_step w c date st \<noteq> None" using body_needs_ir[of w c date st]
    by (cases "ir_step w c date st") auto
  then obtain r where "ir_step w c date st = Some r" by auto
  from ir_step_returns[OF rt ir this]
  show "\<exists>k. list_gcs w (clock st + k) (bucket_name c) (prefix_of (ir_vis_prod c) date)
                  (ir_query c date) \<noteq> []"
    by blast
qed

theorem infrared_polling_witness:
  "rt example_ctx = True \<and> no_ir (cfg example_ctx) = False \<and>
   ir_step poll_world example_ctx example_date init_state \<noteq> None \<and>
   ir_step silent_world example_ctx example_date init_state = None"
proof -
  have h: "rt example_ctx = True" "no_ir (cfg example_ctx) = False"
    by (simp_all add: example_ctx_def example_config_def)
  have "list_gcs poll_world (clock init_state + 2) (bucket_name example_ctx)
          (prefix_of (ir_vis_prod example_ctx) example_date) (ir_query example_ctx example_date) \<noteq> []"
    by (simp add: poll_world_def)
  then have a: "ir_step poll_world example_ctx example_date init_state \<noteq> None"
    using infrared_polling[OF h, of poll_world example_date init_state] by blast
  have "\<not> (\<exists>k. list_gcs silent_world (clock init_state + k) (bucket_name example_ctx)
          (prefix_of (ir_vis_prod example_ctx) example_date) (ir_query example_ctx example_date) \<noteq> [])"
    by (simp add: silent_world_def)
  then have b: "ir_step silent_world example_ctx example_date init_state = None"
    using infrared_polling[OF h, of silent_world example_date init_state] by blast
  from h a b show ?thesis by simp
qed

subsection \<open>The visible and 6.2 micron blocks in real time\<close>

lemma correlated_step_returns:
  assumes rt: "rt c = True" and ir: "no_ir (cfg c) = False" and on: "off = False"
    and fb: "batch_id (files st) = Some fb"
    and r: "correlated_step w c date off chan cat label waiting st = Some r"
  shows "\<exists>n s. (\<forall>j<n. list_gcs w (clock st + j) (bucket_name c) (prefix_of (ir_vis_prod c) date)
                      [chan, stamp date, sector0 c, fb] = []) \<and>
            list_gcs w (clock st + n) (bucket_name c) (prefix_of (ir_vis_prod c) date)
              [chan, stamp date, sector0 c, fb] \<noteq> [] \<and>
            r = Inr (fetch_images w c date cat label s) \<and>
            files s = list_gcs w (clock st + n) (bucket_name c) (prefix_of (ir_vis_prod c) date)
              [chan, stamp date, sector0 c, fb] \<and>
            trace s = trace st @
              ListGcs (bucket_name c) (prefix_of (ir_vis_prod c) date)
                [chan, stamp date, sector0 c, fb] #
              (if n = 0 then []
               else waiting_events waiting @
                    replicate n (ListGcs (bucket_name c) (prefix_of (ir_vis_prod c) date)
                      [chan, stamp date, sector0 c, fb]))"
proof -
  let ?b = "bucket_name c" and ?p = "prefix_of (ir_vis_prod c) date"
    and ?q = "[chan, stamp date, sector0 c, fb]"
  let ?s1 = "assign_list w ?b ?p ?q st"
  let ?s1' = "case waiting of None \<Rightarrow> ?s1 | Some msg \<Rightarrow> emit (Print msg) ?s1"
  have c1: "clock ?s1' = clock st + 1" by (simp add: emit_def split: option.splits)
  have t1: "trace ?s1' = trace st @ ListGcs ?b ?p ?q # waiting_events waiting"
    by (simp add: emit_def waiting_events_def split: option.splits)
  show ?thesis
  proof (cases "list_gcs w (clock st) ?b ?p ?q = []")
    case False
    with r rt ir on fb have "r = Inr (fetch_images w c date cat label ?s1)"
      by (auto simp add: correlated_step_def Let_def)
    with False show ?thesis
      by (intro exI[of _ 0] exI[of _ ?s1]) simp
  next
    case True
    with r rt ir on fb obtain s where s: "wait_files w ?b ?p ?q ?s1' = Some s"
      and rs: "r = Inr (fetch_images w c date cat label s)"
      by (auto simp add: correlated_step_def Let_def)
    from wait_files_answer[OF s] obtain k where "list_gcs w (clock ?s1' + k) ?b ?p ?q \<noteq> []"
      by blast
    from first_answer[OF this] obtain m where
      m: "list_gcs w (clock ?s1' + m) ?b ?p ?q \<noteq> []"
         "\<forall>j<m. list_gcs w (clock ?s1' + j) ?b ?p ?q = []"
      by blast
    from wait_files_found[OF m] s have
      se: "s = ?s1'\<lparr>clock := clock ?s1' + m + 1,
                    trace := trace ?s1' @ replicate (Suc m) (ListGcs ?b ?p ?q),
                    files := list_gcs w (clock ?s1' + m) ?b ?p ?q\<rparr>"
      by simp
    have z: "\<forall>j<Suc m. list_gcs w (clock st + j) ?b ?p ?q = []"
    proof (intro allI impI)
      fix j assume j: "j < Suc m"
      show "list_gcs w (clock st + j) ?b ?p ?q = []"
      proof (cases j)
        case 0
        with True show ?thesis by simp
      next
        case (Suc i)
        with j m(2) c1 show ?thesis by simp
      qed
    qed
    from m(1) c1 have nz: "list_gcs w (clock st + Suc m) ?b ?p ?q \<noteq> []" by simp
    have fs: "files s = list_gcs w (clock st + Suc m) ?b ?p ?q"
      by (subst se) (simp add: c1)
    have ts: "trace s = trace st @ ListGcs ?b ?p ?q #
                (waiting_events waiting @ replicate (Suc m) (ListGcs ?b ?p ?q))"
      by (subst se) (simp add: t1)
    show ?thesis
      using z nz rs fs ts
      by (intro exI[of _ "Suc m"] exI[of _ s]) simp
  qed
qed

lemma correlated_step_answered:
  assumes rt: "rt c = True" and ir: "no_ir (cfg c) = False" and on: "off = False"
    and fb: "batch_id (files st) = Some fb"
    and k: "list_gcs w (clock st + k) (bucket_name c) (prefix_of (ir_vis_prod c) date)
              [chan, stamp date, sector0 c, fb] \<noteq> []"
  shows "correlated_step w c date off chan cat label waiting st \<noteq> None"
proof -
  let ?b = "bucket_name c" and ?p = "prefix_of (ir_vis_prod c) date"
    and ?q = "[chan, stamp date, sector0 c, fb]"
  let ?s1 = "assign_list w ?b ?p ?q st"
  let ?s1' = "case waiting of None \<Rightarrow> ?s1 | Some msg \<Rightarrow> emit (Print msg) ?s1"
  have c1: "clock ?s1' = clock st + 1" by (simp add: emit_def split: option.splits)
  show ?thesis
  proof (cases "list_gcs w (clock st) ?b ?p ?q = []")
    case False
    with rt ir on fb show ?thesis by (simp add: correlated_step_def Let_def)
  next
    case True
    with k obtain k' where "k = Suc k'" by (cases k) auto
    with k c1 have "list_gcs w (clock ?s1' + k') ?b ?p ?q \<noteq> []" by simp
    from first_answer[OF this] obtain m where
      m: "list_gcs w (clock ?s1' + m) ?b ?p ?q \<noteq> []"
         "\<forall>j<m. list_gcs w (clock ?s1' + j) ?b ?p ?q = []"
      by blast
    from wait_files_found[OF m] True rt ir on fb show ?thesis
      by (simp add: correlated_step_def Let_def)
  qed
qed

lemma prepare_rt:
  "prepare late_world (rt_config\<lparr>no_irdiff := True\<rparr>) =
     Inr (rt_ctx (rt_config\<lparr>no_irdiff := True\<rparr>), example_date, example_date, init_state)"
  by (simp add: prepare_def late_world_def rt_config_def rt_ctx_def index_def
      sector_code_def say_def lower_def lower_char_def upper_char_def Let_def realtime_start_def)

lemma example_date_facts:
  "strftime_ymd example_date = ''20200601''"
  "add_hour example_date = Some (example_date\<lparr>hour := Suc 0\<rparr>)"
  "dt_ge example_date example_date"
  "\<not> dt_ge example_date (example_date\<lparr>hour := Suc 0\<rparr>)"
  "prefix_of ''ABI-L1b-RadM'' example_date = ''ABI-L1b-RadM/2020/153/00/''"
  "stamp example_date = ''s202015300''"
  by (simp_all add: strftime_ymd_def zfill4 zfill3 zfill2 digit_def example_date_def
      add_hour_def dt_ge_def dt_fields_def prefix_of_def stamp_def str4
      tm_yday_def days_before_month_def is_leap_def)

lemma body_late:
  "\<exists>s. body late_world (rt_ctx (rt_config\<lparr>no_irdiff := True\<rparr>)) example_date init_state =
     Some (Inr s) \<and> trace s = late_trace"
  apply (simp add: body_def and_then_def ir_step_def vis_step_def irdiff_step_def
      correlated_step_def glm_step_def rt_ctx_def rt_config_def Let_def ir_query_def
      example_date_facts init_state_def assign_list_def call_list_gcs_def late_world_def
      fetch_images_def outdir_of_def path_join_def emit_def transfer_blob_def download_def
      batch_id_def index_def basename_def wait_files.simps late_trace_def)
  done

lemma run_late:
  "\<exists>s. run_download_goes_ir_vis_l1b_glm_l2_data late_world (rt_config\<lparr>no_irdiff := True\<rparr>) =
          Some (Inr ([''/data/20200601''], s)) \<and> trace s = late_trace"
proof -
  from body_late obtain s where
    b: "body late_world (rt_ctx (rt_config\<lparr>no_irdiff := True\<rparr>)) example_date init_state =
          Some (Inr s)" and t: "trace s = late_trace"
    by blast
  have "run_download_goes_ir_vis_l1b_glm_l2_data late_world (rt_config\<lparr>no_irdiff := True\<rparr>) =
          Some (Inr ([''/data/20200601''], s))"
    apply (simp add: run_download_goes_ir_vis_l1b_glm_l2_data_def prepare_rt)
    apply (subst loop.simps)
    apply (simp add: example_date_facts b)
    apply (subst loop.simps)
    apply (simp add: example_date_facts manifest_step_def rt_ctx_def path_join_def)
    done
  with t show ?thesis by blast
qed

text \<open>
  C3 fails: in this run the visible request with the batch identifier is answered with no
  blob, and the next request is the same one, identifier included; the request without the
  identifier is never made.
\<close>

theorem correlated_fallback_counterexample:
  "list_gcs late_world 2 ''gcp-public-data-goes-16'' ''ABI-L1b-RadM/2020/153/00/''
     [''C02'', ''s202015300'', ''M2'', ''20201530001000''] = [] \<and>
   (\<exists>s. run_download_goes_ir_vis_l1b_glm_l2_data late_world (rt_config\<lparr>no_irdiff := True\<rparr>) =
          Some (Inr ([''/data/20200601''], s)) \<and>
        filter is_listing (trace s) =
          [ListGcs ''gcp-public-data-goes-16'' ''ABI-L1b-RadM/2020/153/00/''
             [''C13'', ''s202015300'', ''M2''],
           ListGcs ''gcp-public-data-goes-16'' ''ABI-L1b-RadM/2020/153/00/''
             [''C02'', ''s202015300'', ''M2'', ''20201530001000''],
           ListGcs ''gcp-public-data-goes-16'' ''ABI-L1b-RadM/2020/153/00/''
             [''C02'', ''s202015300'', ''M2'', ''20201530001000'']])"
proof -
  have "filter is_listing late_trace =
          [ListGcs ''gcp-public-data-goes-16'' ''ABI-L1b-RadM/2020/153/00/''
             [''C13'', ''s202015300'', ''M2''],
           ListGcs ''gcp-public-data-goes-16'' ''ABI-L1b-RadM/2020/153/00/''
             [''C02'', ''s202015300'', ''M2'', ''20201530001000''],
           ListGcs ''gcp-public-data-goes-16'' ''ABI-L1b-RadM/2020/153/00/''
             [''C02'', ''s202015300'', ''M2'', ''20201530001000'']]"
    by (simp add: late_trace_def is_listing_def)
  with run_late show ?thesis by (auto simp add: late_world_def)
qed

text \<open>
  C3, amended. In real time with infrared enabled, an enabled visible or 6.2 micron block
  (\<open>vis_step\<close> and \<open>irdiff_step\<close> are \<open>correlated_step\<close> at \<open>C02\<close> and \<open>C08\<close>) whose request
  with the batch identifier gets an empty answer repeats that same request, identifier
  included, until an answer has a blob: it returns exactly when there is such an answer,
  and its requests up to then are all this one.
\<close>

theorem correlated_polling:
  assumes rt: "rt c = True" and ir: "no_ir (cfg c) = False" and on: "off = False"
    and fb: "batch_id (files st) = Some fb"
  shows "(correlated_step w c date off chan cat label waiting st \<noteq> None) =
           (\<exists>k. list_gcs w (clock st + k) (bucket_name c) (prefix_of (ir_vis_prod c) date)
                  [chan, stamp date, sector0 c, fb] \<noteq> []) \<and>
         (\<forall>r. correlated_step w c date off chan cat label waiting st = Some r \<longrightarrow>
           (\<exists>n s. (\<forall>j<n. list_gcs w (clock st + j) (bucket_name c)
                              (prefix_of (ir_vis_prod c) date)
                              [chan, stamp date, sector0 c, fb] = []) \<and>
              list_gcs w (clock st + n) (bucket_name c) (prefix_of (ir_vis_prod c) date)
                [chan, stamp date, sector0 c, fb] \<noteq> [] \<and>
              r = Inr (fetch_images w c date cat label s) \<and>
              files s = list_gcs w (clock st + n) (bucket_name c)
                (prefix_of (ir_vis_prod c) date) [chan, stamp date, sector0 c, fb] \<and>
              trace s = trace st @
                ListGcs (bucket_name c) (prefix_of (ir_vis_prod c) date)
                  [chan, stamp date, sector0 c, fb] #
                (if n = 0 then []
                 else waiting_events waiting @
                      replicate n (ListGcs (bucket_name c) (prefix_of (ir_vis_prod c) date)
                        [chan, stamp date, sector0 c, fb]))))"
proof (intro conjI allI impI)
  show "(correlated_step w c date off chan cat label waiting st \<noteq> None) =
           (\<exists>k. list_gcs w (clock st + k) (bucket_name c) (prefix_of (ir_vis_prod c) date)
                  [chan, stamp date, sector0 c, fb] \<noteq> [])"
  proof
    assume "correlated_step w c date off chan cat label waiting st \<noteq> None"
    then obtain r where "correlated_step w c date off chan cat label waiting st = Some r"
      by auto
    from correlated_step_returns[OF rt ir on fb this]
    show "\<exists>k. list_gcs w (clock st + k) (bucket_name c) (prefix_of (ir_vis_prod c) date)
                  [chan, stamp date, sector0 c, fb] \<noteq> []"
      by blast
  next
    assume "\<exists>k. list_gcs w (clock st + k) (bucket_name c) (prefix_of (ir_vis_prod c) date)
                  [chan, stamp date, sector0 c, fb] \<noteq> []"
    then show "correlated_step w c date off chan cat label waiting st \<noteq> None"
      using correlated_step_answered[OF rt ir on fb] by blast
  qed
next
  fix r assume "correlated_step w c date off chan cat label waiting st = Some r"
  from correlated_step_returns[OF rt ir on fb this]
  show "\<exists>n s. (\<forall>j<n. list_gcs w (clock st + j) (bucket_name c)
                              (prefix_of (ir_vis_prod c) date)
                              [chan, stamp date, sector0 c, fb] = []) \<and>
              list_gcs w (clock st + n) (bucket_name c) (prefix_of (ir_vis_prod c) date)
                [chan, stamp date, sector0 c, fb] \<noteq> [] \<and>
              r = Inr (fetch_images w c date cat label s) \<and>
              files s = list_gcs w (clock st + n) (bucket_name c)
                (prefix_of (ir_vis_prod c) date) [chan, stamp date, sector0 c, fb] \<and>
              trace s = trace st @
                ListGcs (bucket_name c) (prefix_of (ir_vis_prod c) date)
                  [chan, stamp date, sector0 c, fb] #
                (if n = 0 then []
                 else waiting_events waiting @
                      replicate n (ListGcs (bucket_name c) (prefix_of (ir_vis_prod c) date)
                        [chan, stamp date, sector0 c, fb]))" .
qed

lemma batch_id_ir_selected: "batch_id (files ir_selected) = Some ''20201530001000''"
  by (simp add: ir_selected_def batch_id_def index_def basename_def)

theorem correlated_polling_witness:
  "rt example_ctx = True \<and> no_ir (cfg example_ctx) = False \<and>
   batch_id (files ir_selected) = Some ''20201530001000'' \<and>
   correlated_step poll_world example_ctx example_date False ''C02'' ''vis'' ''VIS'' None
     ir_selected \<noteq> None \<and>
   correlated_step silent_world example_ctx example_date False ''C02'' ''vis'' ''VIS'' None
     ir_selected = None"
proof -
  have h: "rt example_ctx = True" "no_ir (cfg example_ctx) = False"
    by (simp_all add: example_ctx_def example_config_def)
  have "list_gcs poll_world (clock ir_selected + 2) (bucket_name example_ctx)
          (prefix_of (ir_vis_prod example_ctx) example_date)
          [''C02'', stamp example_date, sector0 example_ctx, ''20201530001000''] \<noteq> []"
    by (simp add: poll_world_def)
  then have a: "correlated_step poll_world example_ctx example_date False ''C02'' ''vis'' ''VIS''
                  None ir_selected \<noteq> None"
    using correlated_polling[OF h refl batch_id_ir_selected, of poll_world example_date]
    by blast
  have "\<not> (\<exists>k. list_gcs silent_world (clock ir_selected + k) (bucket_name example_ctx)
          (prefix_of (ir_vis_prod example_ctx) example_date)
          [''C02'', stamp example_date, sector0 example_ctx, ''20201530001000''] \<noteq> [])"
    by (simp add: silent_world_def)
  then have b: "correlated_step silent_world example_ctx example_date False ''C02'' ''vis''
                  ''VIS'' None ir_selected = None"
    using correlated_polling[OF h refl batch_id_ir_selected, of silent_world example_date]
    by blast
  from h a b batch_id_ir_selected show ?thesis by simp
qed

subsection \<open>Where the batch identifier comes from\<close>

lemma transfer_blob_frame:
  "files (transfer_blob w c date cat od i st) = files st"
  "outdir (transfer_blob w c date cat od i st) = outdir st"
  "trace (transfer_blob w c date cat od i st) = trace st @ transfer_events c date cat od i"
  by (simp_all add: transfer_blob_def transfer_events_def download_def emit_def Let_def
      split: option.splits)

lemma transfer_all_frame:
  "files (transfer_all w c date cat od is st) = files st"
  "outdir (transfer_all w c date cat od is st) = outdir st"
  "trace (transfer_all w c date cat od is st) =
     trace st @ concat (map (transfer_events c date cat od) is)"
  by (induction "is" arbitrary: st) (simp_all add: transfer_blob_frame)

lemma fetch_images_rt:
  assumes "rt c = True" "files st \<noteq> []"
  shows "files (fetch_images w c date cat label st) = [last (files st)]"
    and "\<exists>evs. trace (fetch_images w c date cat label st) = trace st @ evs"
proof -
  let ?od = "outdir_of c date cat"
  let ?s2 = "(emit (Makedirs ?od) (st\<lparr>outdir := Some ?od\<rparr>))\<lparr>files := [last (files st)]\<rparr>"
  have e: "fetch_images w c date cat label st = transfer_all w c date cat ?od [last (files st)] ?s2"
    using assms by (simp add: fetch_images_def Let_def emit_def)
  show "files (fetch_images w c date cat label st) = [last (files st)]"
    by (simp add: e transfer_all_frame transfer_blob_frame emit_def)
  show "\<exists>evs. trace (fetch_images w c date cat label st) = trace st @ evs"
    by (simp add: e transfer_all_frame transfer_blob_frame emit_def)
qed

lemma ir_step_selects:
  assumes rt: "rt c = True" and ir: "no_ir (cfg c) = False"
    and r: "ir_step w c date st = Some (Inr s1)"
  shows "\<exists>n. list_gcs w (clock st + n) (bucket_name c) (prefix_of (ir_vis_prod c) date)
                (ir_query c date) \<noteq> [] \<and>
             files s1 = [last (list_gcs w (clock st + n) (bucket_name c)
                (prefix_of (ir_vis_prod c) date) (ir_query c date))]"
proof -
  from ir_step_returns[OF rt ir r] obtain n s where
    a: "list_gcs w (clock st + n) (bucket_name c) (prefix_of (ir_vis_prod c) date)
              (ir_query c date) \<noteq> []"
    and b: "s1 = fetch_images w c date ''ir'' ''IR'' s"
    and f: "files s = list_gcs w (clock st + n) (bucket_name c) (prefix_of (ir_vis_prod c) date)
              (ir_query c date)"
    by auto
  from a f have "files s \<noteq> []" by simp
  from fetch_images_rt(1)[OF rt this] b f a show ?thesis by auto
qed

lemma correlated_step_selects:
  assumes rt: "rt c = True" and ir: "no_ir (cfg c) = False" and on: "off = False"
    and r: "correlated_step w c date off chan cat label waiting st = Some (Inr s')"
  shows "\<exists>fb n evs. batch_id (files st) = Some fb \<and>
           list_gcs w (clock st + n) (bucket_name c) (prefix_of (ir_vis_prod c) date)
             [chan, stamp date, sector0 c, fb] \<noteq> [] \<and>
           files s' = [last (list_gcs w (clock st + n) (bucket_name c)
             (prefix_of (ir_vis_prod c) date) [chan, stamp date, sector0 c, fb])] \<and>
           trace s' = trace st @
             ListGcs (bucket_name c) (prefix_of (ir_vis_prod c) date)
               [chan, stamp date, sector0 c, fb] # evs"
proof -
  from r rt ir on obtain fb where fb: "batch_id (files st) = Some fb"
    by (cases "batch_id (files st)") (auto simp add: correlated_step_def Let_def)
  from correlated_step_returns[OF rt ir on fb r] obtain n s where
    a: "list_gcs w (clock st + n) (bucket_name c) (prefix_of (ir_vis_prod c) date)
              [chan, stamp date, sector0 c, fb] \<noteq> []"
    and b: "s' = fetch_images w c date cat label s"
    and f: "files s = list_gcs w (clock st + n) (bucket_name c) (prefix_of (ir_vis_prod c) date)
              [chan, stamp date, sector0 c, fb]"
    and t: "\<exists>evs. trace s = trace st @
              ListGcs (bucket_name c) (prefix_of (ir_vis_prod c) date)
                [chan, stamp date, sector0 c, fb] # evs"
    by auto
  from a f have ne: "files s \<noteq> []" by simp
  from fetch_images_rt(2)[OF rt ne, of w date cat label] t b
  have "\<exists>evs. trace s' = trace st @
              ListGcs (bucket_name c) (prefix_of (ir_vis_prod c) date)
                [chan, stamp date, sector0 c, fb] # evs"
    by auto
  with fetch_images_rt(1)[OF rt ne, of w date cat label] fb a b f show ?thesis by auto
qed

lemma correlated_step_off:
  "correlated_step w c date True chan cat label waiting st = Some (Inr st)"
  by (simp add: correlated_step_def)

text \<open>
  C4, amended. In a real-time pass with infrared enabled that gets through its three image
  blocks, the infrared block leaves one selected blob \<open>i\<close>; an enabled visible block sends
  its request with the batch identifier of \<open>i\<close> and leaves one selected visible blob; an
  enabled 6.2 micron block sends its request with the batch identifier of what \<open>files\<close>
  then holds: the selected visible blob, or \<open>i\<close> when the visible block is disabled.
\<close>

theorem batch_identifier_source:
  assumes rt: "rt c = True" and ir: "no_ir (cfg c) = False"
    and i: "ir_step w c date st = Some (Inr s1)"
    and v: "vis_step w c date s1 = Some (Inr s2)"
    and d: "irdiff_step w c date s2 = Some (Inr s3)"
  shows "\<exists>i. files s1 = [i] \<and>
           (if no_vis (cfg c) = False
            then (\<exists>fb n evs. batch_id [i] = Some fb \<and>
                    trace s2 = trace s1 @
                      ListGcs (bucket_name c) (prefix_of (ir_vis_prod c) date)
                        [''C02'', stamp date, sector0 c, fb] # evs \<and>
                    list_gcs w (clock s1 + n) (bucket_name c) (prefix_of (ir_vis_prod c) date)
                      [''C02'', stamp date, sector0 c, fb] \<noteq> [] \<and>
                    files s2 = [last (list_gcs w (clock s1 + n) (bucket_name c)
                      (prefix_of (ir_vis_prod c) date) [''C02'', stamp date, sector0 c, fb])])
            else s2 = s1) \<and>
           (no_irdiff (cfg c) = False \<longrightarrow>
              (\<exists>fb evs. batch_id (files s2) = Some fb \<and>
                 trace s3 = trace s2 @
                   ListGcs (bucket_name c) (prefix_of (ir_vis_prod c) date)
                     [''C08'', stamp date, sector0 c, fb] # evs))"
proof -
  from ir_step_selects[OF rt ir i] obtain i where f1: "files s1 = [i]" by blast
  have a: "if no_vis (cfg c) = False
            then (\<exists>fb n evs. batch_id [i] = Some fb \<and>
                    trace s2 = trace s1 @
                      ListGcs (bucket_name c) (prefix_of (ir_vis_prod c) date)
                        [''C02'', stamp date, sector0 c, fb] # evs \<and>
                    list_gcs w (clock s1 + n) (bucket_name c) (prefix_of (ir_vis_prod c) date)
                      [''C02'', stamp date, sector0 c, fb] \<noteq> [] \<and>
                    files s2 = [last (list_gcs w (clock s1 + n) (bucket_name c)
                      (prefix_of (ir_vis_prod c) date) [''C02'', stamp date, sector0 c, fb])])
            else s2 = s1"
  proof (cases "no_vis (cfg c)")
    case True
    with v show ?thesis by (simp add: vis_step_def correlated_step_off)
  next
    case False
    then have on: "no_vis (cfg c) = False" by simp
    from correlated_step_selects[OF rt ir on v[unfolded vis_step_def]] f1 on
    show ?thesis by auto
  qed
  have b: "no_irdiff (cfg c) = False \<longrightarrow>
              (\<exists>fb evs. batch_id (files s2) = Some fb \<and>
                 trace s3 = trace s2 @
                   ListGcs (bucket_name c) (prefix_of (ir_vis_prod c) date)
                     [''C08'', stamp date, sector0 c, fb] # evs)"
  proof
    assume on: "no_irdiff (cfg c) = False"
    from correlated_step_selects[OF rt ir on d[unfolded irdiff_step_def]]
    show "\<exists>fb evs. batch_id (files s2) = Some fb \<and>
                 trace s3 = trace s2 @
                   ListGcs (bucket_name c) (prefix_of (ir_vis_prod c) date)
                     [''C08'', stamp date, sector0 c, fb] # evs"
      by blast
  qed
  from f1 a b show ?thesis by blast
qed

lemma prepare_tagged:
  "prepare tagged_world rt_config = Inr (rt_ctx rt_config, example_date, example_date, init_state)"
  by (simp add: prepare_def tagged_world_def rt_config_def rt_ctx_def index_def
      sector_code_def say_def lower_def lower_char_def upper_char_def Let_def realtime_start_def)

lemmas step_defs =
  ir_step_def vis_step_def irdiff_step_def correlated_step_def Let_def ir_query_def
  assign_list_def call_list_gcs_def fetch_images_def outdir_of_def path_join_def emit_def
  transfer_blob_def download_def batch_id_def index_def basename_def

lemma steps_tagged:
  "\<exists>s1 s2 s3.
     ir_step tagged_world (rt_ctx rt_config) example_date init_state = Some (Inr s1) \<and>
     vis_step tagged_world (rt_ctx rt_config) example_date s1 = Some (Inr s2) \<and>
     irdiff_step tagged_world (rt_ctx rt_config) example_date s2 = Some (Inr s3) \<and>
     files s1 =
       [''ABI-L1b-RadM/2020/153/00/OR_ABI-L1b-RadM2-M6C13_G16_s20201530001000_e1_c1.nc''] \<and>
     files s2 =
       [''ABI-L1b-RadM/2020/153/00/OR_ABI-L1b-RadM2-M6C02_G16_v2_s20201530001000_e1_c1.nc''] \<and>
     filter is_listing (trace s3) = tagged_listings"
  by (simp add: step_defs rt_ctx_def rt_config_def example_date_facts init_state_def
      tagged_world_def tagged_listings_def is_listing_def)

text \<open>
  C4 fails for the 6.2 micron request: in this run the selected infrared blob has the batch
  identifier \<open>20201530001000\<close>, the visible request carries it, and the 6.2 micron request
  carries \<open>v2\<close>, the fourth piece of the name of the selected visible blob.
\<close>

theorem batch_identifier_counterexample:
  "batch_id [''ABI-L1b-RadM/2020/153/00/OR_ABI-L1b-RadM2-M6C13_G16_s20201530001000_e1_c1.nc'']
     = Some ''20201530001000'' \<and>
   (\<exists>s1 s. ir_step tagged_world (rt_ctx rt_config) example_date init_state = Some (Inr s1) \<and>
      files s1 =
        [''ABI-L1b-RadM/2020/153/00/OR_ABI-L1b-RadM2-M6C13_G16_s20201530001000_e1_c1.nc''] \<and>
      run_download_goes_ir_vis_l1b_glm_l2_data tagged_world rt_config =
        Some (Inr ([''/data/20200601''], s)) \<and>
      filter is_listing (trace s) =
        [ListGcs ''gcp-public-data-goes-16'' ''ABI-L1b-RadM/2020/153/00/''
           [''C13'', ''s202015300'', ''M2''],
         ListGcs ''gcp-public-data-goes-16'' ''ABI-L1b-RadM/2020/153/00/''
           [''C02'', ''s202015300'', ''M2'', ''20201530001000''],
         ListGcs ''gcp-public-data-goes-16'' ''ABI-L1b-RadM/2020/153/00/''
           [''C08'', ''s202015300'', ''M2'', ''v2'']])"
proof -
  from steps_tagged obtain s1 s2 s3 where
    a: "ir_step tagged_world (rt_ctx rt_config) example_date init_state = Some (Inr s1)"
    and b: "vis_step tagged_world (rt_ctx rt_config) example_date s1 = Some (Inr s2)"
    and c: "irdiff_step tagged_world (rt_ctx rt_config) example_date s2 = Some (Inr s3)"
    and f: "files s1 =
       [''ABI-L1b-RadM/2020/153/00/OR_ABI-L1b-RadM2-M6C13_G16_s20201530001000_e1_c1.nc'']"
    and t: "filter is_listing (trace s3) = tagged_listings"
    by blast
  have body: "body tagged_world (rt_ctx rt_config) example_date init_state = Some (Inr s3)"
    using a b c by (simp add: body_def and_then_def glm_step_def rt_ctx_def rt_config_def)
  have run: "run_download_goes_ir_vis_l1b_glm_l2_data tagged_world rt_config =
          Some (Inr ([''/data/20200601''], s3))"
    apply (simp add: run_download_goes_ir_vis_l1b_glm_l2_data_def prepare_tagged)
    apply (subst loop.simps)
    apply (simp add: example_date_facts body)
    apply (subst loop.simps)
    apply (simp add: example_date_facts manifest_step_def rt_ctx_def path_join_def)
    done
  have id: "batch_id
      [''ABI-L1b-RadM/2020/153/00/OR_ABI-L1b-RadM2-M6C13_G16_s20201530001000_e1_c1.nc'']
     = Some ''20201530001000''"
    by (simp add: batch_id_def index_def basename_def)
  from a f run t id show ?thesis by (auto simp add: tagged_listings_def)
qed

theorem batch_identifier_source_witness:
  "rt (rt_ctx rt_config) = True \<and> no_ir (cfg (rt_ctx rt_config)) = False \<and>
   (\<exists>s1 s2 s3 evs.
      ir_step tagged_world (rt_ctx rt_config) example_date init_state = Some (Inr s1) \<and>
      vis_step tagged_world (rt_ctx rt_config) example_date s1 = Some (Inr s2) \<and>
      irdiff_step tagged_world (rt_ctx rt_config) example_date s2 = Some (Inr s3) \<and>
      files s2 =
       [''ABI-L1b-RadM/2020/153/00/OR_ABI-L1b-RadM2-M6C02_G16_v2_s20201530001000_e1_c1.nc''] \<and>
      trace s3 = trace s2 @
        ListGcs ''gcp-public-data-goes-16'' ''ABI-L1b-RadM/2020/153/00/''
          [''C08'', ''s202015300'', ''M2'', ''v2''] # evs)"
proof -
  have h: "rt (rt_ctx rt_config) = True" "no_ir (cfg (rt_ctx rt_config)) = False"
    "no_irdiff (cfg (rt_ctx rt_config)) = False"
    by (simp_all add: rt_ctx_def rt_config_def)
  from steps_tagged obtain s1 s2 s3 where
    a: "ir_step tagged_world (rt_ctx rt_config) example_date init_state = Some (Inr s1)"
    and b: "vis_step tagged_world (rt_ctx rt_config) example_date s1 = Some (Inr s2)"
    and c: "irdiff_step tagged_world (rt_ctx rt_config) example_date s2 = Some (Inr s3)"
    and f: "files s2 =
       [''ABI-L1b-RadM/2020/153/00/OR_ABI-L1b-RadM2-M6C02_G16_v2_s20201530001000_e1_c1.nc'']"
    by blast
  from batch_identifier_source[OF h(1) h(2) a b c] h(3) obtain fb evs where
    fb: "batch_id (files s2) = Some fb"
    and t: "trace s3 = trace s2 @
        ListGcs (bucket_name (rt_ctx rt_config)) (prefix_of (ir_vis_prod (rt_ctx rt_config)) example_date)
          [''C08'', stamp example_date, sector0 (rt_ctx rt_config), fb] # evs"
    by auto
  from fb f have "fb = ''v2''" by (simp add: batch_id_def index_def basename_def)
  with t have "trace s3 = trace s2 @
        ListGcs ''gcp-public-data-goes-16'' ''ABI-L1b-RadM/2020/153/00/''
          [''C08'', ''s202015300'', ''M2'', ''v2''] # evs"
    by (simp add: rt_ctx_def example_date_facts)
  with a b c f h show ?thesis by blast
qed

subsection \<open>Full disk, lightning only, in real time\<close>

lemma pool_tasks_append: "pool_tasks (xs @ ys) = pool_tasks xs @ pool_tasks ys"
  by (induction xs rule: pool_tasks.induct) simp_all

lemma pool_sizes_append: "pool_sizes (xs @ ys) = pool_sizes xs @ pool_sizes ys"
  by (induction xs rule: pool_sizes.induct) simp_all

lemma copies_not_pooled:
  "pool_tasks (map (\<lambda>i. CopyBlob b i g (k i)) is) = []"
  "pool_sizes (map (\<lambda>i. CopyBlob b i g (k i)) is) = []"
  "filter is_download (map (\<lambda>i. CopyBlob b i g (k i)) is) = []"
  by (induction "is") (simp_all add: is_download_def)

lemma add_hour_later: "add_hour d = Some d' \<Longrightarrow> \<not> dt_ge d d'"
  by (auto simp add: add_hour_def next_day_def dt_ge_def dt_fields_def split: if_splits)

lemma realtime_start_full:
  "realtime_start w ''F'' = Some d \<Longrightarrow> \<not> minute d < 3"
  by (auto simp add: realtime_start_def sub_minutes_def split: if_splits)

lemma glm_step_rt_plain:
  assumes rt: "rt c = True" and glm: "no_glm (cfg c) = False" and m: "\<not> minute date < 3"
  shows "\<exists>st' evs. glm_step w c date st = Inr st' \<and> trace st' = trace st @ evs \<and>
           filter is_download evs = [] \<and>
           length (pool_tasks evs) \<le> glm_keep (sector0 c) \<and>
           set (pool_sizes evs) \<subseteq> {5}"
proof -
  let ?L = "list_gcs w (clock st) (bucket_name c) (prefix_of glm_prod date) [''GLM'', stamp date]"
  have len: "length (slice_from (- int (glm_keep (sector0 c))) ?L) \<le> glm_keep (sector0 c)"
    by (rule slice_from_neg_length) (simp add: glm_keep_def)
  show ?thesis
    using rt glm m len
    by (cases "?L = []"; cases "gcs_bucket (cfg c)"; cases "del_local (cfg c)")
      (auto simp add: glm_step_def glm_current_def glm_previous_def glm_realtime_def
        glm_next_def pool_download_def copy_all_eq emit_def Let_def is_download_def
        pool_tasks_append pool_sizes_append copies_not_pooled glm_keep_def
        split: option.splits)
qed

lemma prepare_full:
  assumes "date1 cf = None" "sector cf = ''full''"
  shows "prepare w cf = Inl (OverflowError, init_state) \<or>
         (\<exists>c d st. prepare w cf = Inr (c, d, d, st) \<and> cfg c = cf \<and> rt c = True \<and>
            sector0 c = ''F'' \<and> \<not> minute d < 3 \<and>
            filter is_download (trace st) = [] \<and> pool_tasks (trace st) = [] \<and>
            pool_sizes (trace st) = [])"
proof (cases "realtime_start w ''F''")
  case None
  with assms show ?thesis
    by (simp add: prepare_def index_def sector_code_def Let_def)
next
  case (Some d)
  from realtime_start_full[OF Some] have "\<not> minute d < 3" .
  with assms Some show ?thesis
    by (simp add: prepare_def index_def sector_code_def Let_def say_def emit_def init_state_def
        is_download_def)
qed

text \<open>
  C6. A real-time run for sector \<open>full\<close> with only lightning enabled returns or raises (it
  never polls), and in its trace there is no call of \<open>download_ncdf_gcs\<close>, the pool tasks
  number at most 30, and every pool has 5 workers.
\<close>

theorem full_disk_lightning_only:
  assumes "date1 cf = None" and "sector cf = ''full''"
    and "no_ir cf = True" and "no_vis cf = True" and "no_irdiff cf = True"
    and "no_glm cf = False"
  shows "\<exists>r. run_download_goes_ir_vis_l1b_glm_l2_data w cf = Some r \<and>
           filter is_download (trace (final_state r)) = [] \<and>
           length (pool_tasks (trace (final_state r))) \<le> 30 \<and>
           set (pool_sizes (trace (final_state r))) \<subseteq> {5}"
proof -
  from prepare_full[OF assms(1) assms(2), of w]
  show ?thesis
  proof
    assume "prepare w cf = Inl (OverflowError, init_state)"
    then show ?thesis
      by (simp add: run_download_goes_ir_vis_l1b_glm_l2_data_def final_state_def init_state_def)
  next
    assume "\<exists>c d st. prepare w cf = Inr (c, d, d, st) \<and> cfg c = cf \<and> rt c = True \<and>
            sector0 c = ''F'' \<and> \<not> minute d < 3 \<and>
            filter is_download (trace st) = [] \<and> pool_tasks (trace st) = [] \<and>
            pool_sizes (trace st) = []"
    then obtain c d st where p: "prepare w cf = Inr (c, d, d, st)" and c: "cfg c = cf"
      and rt: "rt c = True" and f: "sector0 c = ''F''" and m: "\<not> minute d < 3"
      and t: "filter is_download (trace st) = []" "pool_tasks (trace st) = []"
         "pool_sizes (trace st) = []"
      by blast
    from assms(6) c have glm: "no_glm (cfg c) = False" by simp
    from glm_step_rt_plain[OF rt glm m, of w st] obtain st' evs where
      g: "glm_step w c d st = Inr st'" and tr: "trace st' = trace st @ evs"
      and e: "filter is_download evs = []" "length (pool_tasks evs) \<le> glm_keep (sector0 c)"
         "set (pool_sizes evs) \<subseteq> {5}"
      by blast
    have b: "body w c d st = Some (Inr st')"
      using assms(3,4,5) c g
      by (simp add: body_def and_then_def ir_step_def vis_step_def irdiff_step_def
          correlated_step_def)
    have good: "filter is_download (trace st') = [] \<and> length (pool_tasks (trace st')) \<le> 30 \<and>
           set (pool_sizes (trace st')) \<subseteq> {5}"
      using tr t e f by (simp add: pool_tasks_append pool_sizes_append glm_keep_def)
    have run: "run_download_goes_ir_vis_l1b_glm_l2_data w cf = loop w c d d st []"
      using p by (simp add: run_download_goes_ir_vis_l1b_glm_l2_data_def)
    show ?thesis
    proof (cases "add_hour d")
      case None
      have "loop w c d d st [] = Some (Inl (OverflowError, st'))"
        by (subst loop.simps) (simp add: dt_ge_refl b None)
      with run good show ?thesis by (simp add: final_state_def)
    next
      case (Some d')
      have "loop w c d d st [] = loop w c d d' st' (manifest_step c d [])"
        by (subst loop.simps) (simp add: dt_ge_refl b Some)
      also have "\<dots> = Some (Inr (manifest_step c d [], st'))"
        by (subst loop.simps) (simp add: add_hour_later[OF Some])
      finally show ?thesis using run good by (simp add: final_state_def)
    qed
  qed
qed

theorem full_disk_lightning_only_witness:
  "date1 (example_config\<lparr>sector := ''full'', no_ir := True, no_vis := True, no_irdiff := True\<rparr>)
     = None \<and>
   (\<exists>r. run_download_goes_ir_vis_l1b_glm_l2_data glm_world
           (example_config\<lparr>sector := ''full'', no_ir := True, no_vis := True,
              no_irdiff := True\<rparr>) = Some r \<and>
        filter is_download (trace (final_state r)) = [] \<and>
        length (pool_tasks (trace (final_state r))) \<le> 30 \<and>
        set (pool_sizes (trace (final_state r))) \<subseteq> {5})"
proof -
  let ?cf = "example_config\<lparr>sector := ''full'', no_ir := True, no_vis := True,
               no_irdiff := True\<rparr>"
  have h: "date1 ?cf = None" "sector ?cf = ''full''" "no_ir ?cf = True" "no_vis ?cf = True"
    "no_irdiff ?cf = True" "no_glm ?cf = False"
    by (simp_all add: example_config_def)
  from full_disk_lightning_only[OF h, of glm_world] h(1) show ?thesis by blast
qed

subsection \<open>The calendar\<close>

lemma month_cases:
  "1 \<le> m \<Longrightarrow> m \<le> 12 \<Longrightarrow>
   m = 1 \<or> m = 2 \<or> m = 3 \<or> m = 4 \<or> m = 5 \<or> m = 6 \<or> m = 7 \<or> m = 8 \<or> m = 9 \<or> m = 10 \<or>
   m = 11 \<or> m = (12::nat)"
  by arith

lemma days_before_month_values:
  "days_before_month y 1 = 0"
  "days_before_month y (Suc 0) = 0"
  "days_before_month y (Suc (Suc 0)) = 31"
  "days_before_month y 2 = 31"
  "days_before_month y 3 = 59 + (if is_leap y then 1 else 0)"
  "days_before_month y 4 = 90 + (if is_leap y then 1 else 0)"
  "days_before_month y 5 = 120 + (if is_leap y then 1 else 0)"
  "days_before_month y 6 = 151 + (if is_leap y then 1 else 0)"
  "days_before_month y 7 = 181 + (if is_leap y then 1 else 0)"
  "days_before_month y 8 = 212 + (if is_leap y then 1 else 0)"
  "days_before_month y 9 = 243 + (if is_leap y then 1 else 0)"
  "days_before_month y 10 = 273 + (if is_leap y then 1 else 0)"
  "days_before_month y 11 = 304 + (if is_leap y then 1 else 0)"
  "days_before_month y 12 = 334 + (if is_leap y then 1 else 0)"
  by (simp_all add: days_before_month_def)

lemma days_in_month_values:
  "days_in_month y 1 = 31" "days_in_month y (Suc 0) = 31" "days_in_month y 2 = (if is_leap y then 29 else 28)"
  "days_in_month y 3 = 31" "days_in_month y 4 = 30" "days_in_month y 5 = 31"
  "days_in_month y 6 = 30" "days_in_month y 7 = 31" "days_in_month y 8 = 31"
  "days_in_month y 9 = 30" "days_in_month y 10 = 31" "days_in_month y 11 = 30"
  "days_in_month y 12 = 31"
  by (simp_all add: days_in_month_def)


lemma div_pred:
  assumes "0 < (y::nat)"
  shows "y div k = (if y mod k = 0 then Suc ((y - 1) div k) else (y - 1) div k)"
proof -
  from assms have "Suc (y - 1) = y" by simp
  with div_Suc[of "y - 1" k] show ?thesis by simp
qed

lemma mod_coarser:
  assumes "(k::nat) dvd l" "y mod l = 0"
  shows "y mod k = 0"
proof -
  from assms(2) have "l dvd y" by (simp add: dvd_eq_mod_eq_0)
  with assms(1) have "k dvd y" by (rule dvd_trans)
  then show ?thesis by (simp add: dvd_eq_mod_eq_0)
qed

lemma days_before_year_Suc:
  assumes "0 < y"
  shows "days_before_year (Suc y) = days_before_year y + 365 + (if is_leap y then 1 else 0)"
proof -
  define a b c where "a = (y - 1) div 4" and "b = (y - 1) div 100" and "c = (y - 1) div 400"
  have le: "b \<le> a" unfolding a_def b_def by (rule div_le_mono2) simp_all
  have d4: "(4::nat) dvd 100" by (rule dvdI[of _ _ 25]) simp
  have d100: "(100::nat) dvd 400" by (rule dvdI[of _ _ 4]) simp
  have m1: "y mod 100 = 0 \<Longrightarrow> y mod 4 = 0" by (rule mod_coarser[OF d4])
  have m2: "y mod 400 = 0 \<Longrightarrow> y mod 100 = 0" by (rule mod_coarser[OF d100])
  have e4: "y div 4 = (if y mod 4 = 0 then Suc a else a)"
    unfolding a_def by (rule div_pred[OF assms])
  have e100: "y div 100 = (if y mod 100 = 0 then Suc b else b)"
    unfolding b_def by (rule div_pred[OF assms])
  have e400: "y div 400 = (if y mod 400 = 0 then Suc c else c)"
    unfolding c_def by (rule div_pred[OF assms])
  have l: "days_before_year (Suc y) = y * 365 + y div 4 - y div 100 + y div 400"
    by (simp add: days_before_year_def)
  have r: "days_before_year y = (y - 1) * 365 + a - b + c"
    by (simp add: days_before_year_def a_def b_def c_def)
  have y: "y * 365 = (y - 1) * 365 + 365" using assms by (cases y) simp_all
  show ?thesis
    unfolding l r e4 e100 e400 y is_leap_def
    using le m1 m2 by (cases "y mod 4 = 0"; cases "y mod 100 = 0"; cases "y mod 400 = 0") simp_all
qed

lemma days_before_year_mono: "y \<le> y' \<Longrightarrow> days_before_year y \<le> days_before_year y'"
proof (induction y' arbitrary: y)
  case 0
  then show ?case by simp
next
  case (Suc y')
  show ?case
  proof (cases "y = Suc y'")
    case True
    then show ?thesis by simp
  next
    case False
    with Suc.prems have le: "y \<le> y'" by simp
    show ?thesis
    proof (cases "y' = 0")
      case True
      with le show ?thesis by (simp add: days_before_year_def)
    next
      case False
      then have "days_before_year y' \<le> days_before_year (Suc y')"
        by (simp add: days_before_year_Suc)
      with Suc.IH[OF le] show ?thesis by simp
    qed
  qed
qed

lemma days_before_month_Suc:
  assumes "1 \<le> m" "m < 12"
  shows "days_before_month y (Suc m) = days_before_month y m + days_in_month y m"
proof -
  from assms have a: "1 \<le> m" "m \<le> 12" and b: "m \<noteq> 12" by simp_all
  from month_cases[OF a] b show ?thesis
    by (elim disjE) (simp_all add: days_before_month_values days_in_month_values)
qed

lemma days_in_year_bound:
  assumes "1 \<le> m" "m \<le> 12" "d \<le> days_in_month y m"
  shows "days_before_month y m + d \<le> 365 + (if is_leap y then 1 else 0)"
  using month_cases[OF assms(1,2)] assms(3)
  by (elim disjE) (simp_all add: days_before_month_values days_in_month_values split: if_splits)

lemma days_before_month_mono_add:
  "1 \<le> m \<Longrightarrow> m + k \<le> 12 \<Longrightarrow> days_before_month y m \<le> days_before_month y (m + k)"
proof (induction k)
  case 0
  then show ?case by simp
next
  case (Suc k)
  then have "days_before_month y (Suc (m + k)) =
      days_before_month y (m + k) + days_in_month y (m + k)"
    by (intro days_before_month_Suc) simp_all
  with Suc show ?case by simp
qed

lemma days_before_month_step:
  assumes "1 \<le> m" "m < m'" "m' \<le> 12"
  shows "days_before_month y m + days_in_month y m \<le> days_before_month y m'"
proof -
  from assms obtain k where k: "m' = Suc m + k" by (metis less_iff_Suc_add add_Suc)
  have "days_before_month y (Suc m) \<le> days_before_month y (Suc m + k)"
    using assms k by (intro days_before_month_mono_add) simp_all
  moreover have "days_before_month y (Suc m) = days_before_month y m + days_in_month y m"
    using assms by (intro days_before_month_Suc) simp_all
  ultimately show ?thesis using k by simp
qed

lemma days_in_month_pos: "28 \<le> days_in_month y m"
  by (simp add: days_in_month_def)

lemma next_day_valid:
  assumes v: "valid_datetime d" and n: "next_day d = Some e"
  shows "valid_datetime e \<and> toordinal e = Suc (toordinal d) \<and> hour e = hour d \<and>
         minute e = minute d \<and> second e = second d \<and> microsecond e = microsecond d"
proof (cases "day d < days_in_month (year d) (month d)")
  case True
  with n have e: "e = d\<lparr>day := day d + 1\<rparr>" by (simp add: next_day_def)
  with v True show ?thesis by (simp add: valid_datetime_def toordinal_def)
next
  case False
  with v have dd: "day d = days_in_month (year d) (month d)" by (simp add: valid_datetime_def)
  show ?thesis
  proof (cases "month d < 12")
    case True
    with n False have e: "e = d\<lparr>month := month d + 1, day := 1\<rparr>" by (simp add: next_day_def)
    have "days_before_month (year d) (Suc (month d)) =
            days_before_month (year d) (month d) + days_in_month (year d) (month d)"
      using v True by (intro days_before_month_Suc) (simp_all add: valid_datetime_def)
    moreover have "1 \<le> days_in_month (year d) (Suc (month d))"
      using days_in_month_pos[of "year d" "Suc (month d)"] by simp
    ultimately show ?thesis using v True dd e
      by (simp add: valid_datetime_def toordinal_def)
  next
    case False
    with v have m: "month d = 12" by (simp add: valid_datetime_def)
    with n dd have y: "year d < 9999" and e: "e = d\<lparr>year := year d + 1, month := 1, day := 1\<rparr>"
      by (auto simp add: next_day_def split: if_splits)
    have "days_before_year (Suc (year d)) =
            days_before_year (year d) + 365 + (if is_leap (year d) then 1 else 0)"
      using v by (intro days_before_year_Suc) (simp add: valid_datetime_def)
    then show ?thesis using v m dd y e
      by (simp add: valid_datetime_def toordinal_def days_before_month_values
          days_in_month_values)
  qed
qed

lemma add_hour_valid:
  assumes v: "valid_datetime d" and a: "add_hour d = Some e"
  shows "valid_datetime e \<and> total_us e = total_us d + hour_us"
proof (cases "hour d < 23")
  case True
  with a have "e = d\<lparr>hour := hour d + 1\<rparr>" by (simp add: add_hour_def)
  with v True show ?thesis
    by (simp add: valid_datetime_def total_us_def toordinal_def hour_us_def)
next
  case False
  with v have h: "hour d = 23" by (simp add: valid_datetime_def)
  from a False obtain f where f: "next_day d = Some f" and e: "e = f\<lparr>hour := 0\<rparr>"
    by (auto simp add: add_hour_def)
  from next_day_valid[OF v f] have
    "valid_datetime f" "toordinal f = Suc (toordinal d)" "minute f = minute d"
    "second f = second d" "microsecond f = microsecond d"
    by simp_all
  with e h show ?thesis
    by (simp add: valid_datetime_def total_us_def toordinal_def hour_us_def)
qed

lemma toordinal_less:
  assumes a: "valid_datetime a" and b: "valid_datetime b" and l: "ymd_less b a"
  shows "toordinal b < toordinal a"
proof -
  from a have va: "1 \<le> month a" "month a \<le> 12" "1 \<le> day a" by (simp_all add: valid_datetime_def)
  from b have vb: "1 \<le> year b" "1 \<le> month b" "month b \<le> 12"
    "day b \<le> days_in_month (year b) (month b)"
    by (simp_all add: valid_datetime_def)
  consider (y) "year b < year a"
    | (m) "year b = year a" "month b < month a"
    | (d) "year b = year a" "month b = month a" "day b < day a"
    using l by (auto simp add: ymd_less_def)
  then show ?thesis
  proof cases
    case y
    have "days_before_month (year b) (month b) + day b \<le>
            365 + (if is_leap (year b) then 1 else 0)"
      by (rule days_in_year_bound[OF vb(2,3,4)])
    moreover have "days_before_year (Suc (year b)) =
        days_before_year (year b) + 365 + (if is_leap (year b) then 1 else 0)"
      using vb(1) by (intro days_before_year_Suc) simp
    moreover have "days_before_year (Suc (year b)) \<le> days_before_year (year a)"
      using y by (intro days_before_year_mono) simp
    ultimately show ?thesis using va(3) by (simp add: toordinal_def)
  next
    case m
    have "days_before_month (year b) (month b) + days_in_month (year b) (month b) \<le>
            days_before_month (year b) (month a)"
      using vb(2) m(2) va(2) by (rule days_before_month_step)
    with m(1) vb(4) va(3) show ?thesis by (simp add: toordinal_def)
  next
    case d
    then show ?thesis by (simp add: toordinal_def)
  qed
qed

lemma ymd_trichotomy:
  "ymd_less b a \<or> ymd_less a b \<or> (year a = year b \<and> month a = month b \<and> day a = day b)"
  by (auto simp add: ymd_less_def)

lemma dt_ge_unfold:
  "dt_ge a b =
     (ymd_less b a \<or> (year b = year a \<and> month b = month a \<and> day b = day a \<and>
        (hour b < hour a \<or> (hour b = hour a \<and> (minute b < minute a \<or>
          (minute b = minute a \<and> (second b < second a \<or>
            (second b = second a \<and> microsecond b \<le> microsecond a))))))))"
  by (auto simp add: dt_ge_def dt_fields_def ymd_less_def)

lemma total_us_less:
  assumes "valid_datetime a" "valid_datetime b" "toordinal b < toordinal a"
  shows "total_us b < total_us a"
proof -
  from assms(2) have "hour b < 24" "minute b < 60" "second b < 60" "microsecond b < 1000000"
    by (simp_all add: valid_datetime_def)
  then have "total_us b < (toordinal b + 1) * 86400000000"
    by (simp add: total_us_def)
  also have "\<dots> \<le> toordinal a * 86400000000"
    using assms(3) by simp
  also have "\<dots> \<le> total_us a" by (simp add: total_us_def)
  finally show ?thesis .
qed

lemma ymd_less_asym: "ymd_less a b \<Longrightarrow> \<not> ymd_less b a \<and>
    \<not> (year b = year a \<and> month b = month a \<and> day b = day a)"
  by (auto simp add: ymd_less_def)

lemma time_of_day_order:
  fixes h m s u h' m' s' u' :: nat
  assumes "m < 60" "s < 60" "u < 1000000" "m' < 60" "s' < 60" "u' < 1000000"
  shows "(h' < h \<or> (h' = h \<and> (m' < m \<or> (m' = m \<and> (s' < s \<or> (s' = s \<and> u' \<le> u)))))) =
         (((h' * 60 + m') * 60 + s') * 1000000 + u' \<le> ((h * 60 + m) * 60 + s) * 1000000 + u)"
  using assms by auto

lemma dt_ge_total_us:
  assumes a: "valid_datetime a" and b: "valid_datetime b"
  shows "dt_ge a b = (total_us b \<le> total_us a)"
proof -
  from ymd_trichotomy[of b a] consider (lt) "ymd_less b a" | (gt) "ymd_less a b"
    | (eq) "year a = year b" "month a = month b" "day a = day b" by blast
  then show ?thesis
  proof cases
    case lt
    from total_us_less[OF a b toordinal_less[OF a b lt]] lt show ?thesis
      by (simp add: dt_ge_unfold)
  next
    case gt
    from total_us_less[OF b a toordinal_less[OF b a gt]] ymd_less_asym[OF gt] show ?thesis
      by (auto simp add: dt_ge_unfold)
  next
    case eq
    then have o: "toordinal a = toordinal b" and n: "\<not> ymd_less b a"
      by (simp_all add: toordinal_def ymd_less_def)
    from a b have bounds: "minute a < 60" "second a < 60" "microsecond a < 1000000"
      "minute b < 60" "second b < 60" "microsecond b < 1000000"
      by (simp_all add: valid_datetime_def)
    have "total_us b \<le> total_us a \<longleftrightarrow>
        ((hour b * 60 + minute b) * 60 + second b) * 1000000 + microsecond b \<le>
        ((hour a * 60 + minute a) * 60 + second a) * 1000000 + microsecond a"
      by (simp add: total_us_def o algebra_simps)
    with time_of_day_order[OF bounds] eq n show ?thesis
      by (simp add: dt_ge_unfold)
  qed
qed

subsection \<open>The number of passes\<close>




lemma loop_stops:
  "\<not> dt_ge date2' date \<Longrightarrow> loop w c date2' date st m = Some (Inr (m, st))"
  by (subst loop.simps) simp

lemma loop_passes:
  assumes "valid_datetime date" and "valid_datetime date2'" and "dt_ge date2' date"
    and "n = (total_us date2' - total_us date) div hour_us"
  shows "loop w c date2' date st m = finish (passes w c (Suc n) date st m)"
  using assms
proof (induction n arbitrary: date st m)
  case 0
  from 0(1,2,3) have le: "total_us date \<le> total_us date2'" by (simp add: dt_ge_total_us)
  from 0(4) have small: "total_us date2' - total_us date < hour_us"
    by (simp add: hour_us_def)
  show ?case
  proof (cases "body w c date st")
    case None
    with 0(3) show ?thesis by (subst loop.simps) (simp add: finish_def)
  next
    case (Some r)
    show ?thesis
    proof (cases r)
      case (Inl e)
      with Some 0(3) show ?thesis by (subst loop.simps) (simp add: finish_def)
    next
      case (Inr st1)
      show ?thesis
      proof (cases "add_hour date")
        case None
        with Some Inr 0(3) show ?thesis by (subst loop.simps) (simp add: finish_def)
      next
        case (Some date')
        from add_hour_valid[OF 0(1) Some] have v: "valid_datetime date'"
          and u: "total_us date' = total_us date + hour_us" by simp_all
        from u small le have "\<not> total_us date' \<le> total_us date2'" by simp
        with v 0(2) have "\<not> dt_ge date2' date'" by (simp add: dt_ge_total_us)
        from loop_stops[OF this] \<open>body w c date st = Some r\<close> Inr Some 0(3)
        show ?thesis by (subst loop.simps) (simp add: finish_def)
      qed
    qed
  qed
next
  case (Suc n)
  from Suc(2,3,4) have le: "total_us date \<le> total_us date2'" by (simp add: dt_ge_total_us)
  have big: "hour_us \<le> total_us date2' - total_us date"
  proof (rule ccontr)
    assume "\<not> hour_us \<le> total_us date2' - total_us date"
    then have "(total_us date2' - total_us date) div hour_us = 0" by simp
    with Suc(5) show False by simp
  qed
  show ?case
  proof (cases "body w c date st")
    case None
    with Suc(4) show ?thesis by (subst loop.simps) (simp add: finish_def)
  next
    case (Some r)
    show ?thesis
    proof (cases r)
      case (Inl e)
      with Some Suc(4) show ?thesis by (subst loop.simps) (simp add: finish_def)
    next
      case (Inr st1)
      show ?thesis
      proof (cases "add_hour date")
        case None
        with Some Inr Suc(4) show ?thesis by (subst loop.simps) (simp add: finish_def)
      next
        case (Some date')
        from add_hour_valid[OF Suc(2) Some] have v: "valid_datetime date'"
          and u: "total_us date' = total_us date + hour_us" by simp_all
        from u big le have "total_us date' \<le> total_us date2'" by simp
        with v Suc(3) have ge: "dt_ge date2' date'" by (simp add: dt_ge_total_us)
        have "total_us date2' - total_us date = (total_us date2' - total_us date') + hour_us"
          using u big by simp
        then have "(total_us date2' - total_us date) div hour_us =
            Suc ((total_us date2' - total_us date') div hour_us)"
          by (simp add: hour_us_def)
        with Suc(5) have n: "n = (total_us date2' - total_us date') div hour_us" by simp
        from Suc.IH[OF v Suc(3) ge n]
        have "loop w c date2' date' st1 (manifest_step c date m) =
                finish (passes w c (Suc n) date' st1 (manifest_step c date m))" .
        with \<open>body w c date st = Some r\<close> Inr Some Suc(4)
        show ?thesis by (subst loop.simps) simp
      qed
    qed
  qed
qed

lemma passes_cursor:
  assumes "valid_datetime date" and "passes w c n date st m = Some (Inr (d, m', st'))"
  shows "valid_datetime d \<and> total_us d = total_us date + n * hour_us"
  using assms
proof (induction n arbitrary: date st m)
  case 0
  then show ?case by simp
next
  case (Suc n)
  from Suc(3) obtain st1 date' where
    a: "add_hour date = Some date'"
    and p: "passes w c n date' st1 (manifest_step c date m) = Some (Inr (d, m', st'))"
    by (auto split: option.splits sum.splits)
  from add_hour_valid[OF Suc(2) a] have v: "valid_datetime date'"
    and u: "total_us date' = total_us date + hour_us" by simp_all
  from Suc.IH[OF v p] u show ?case by simp
qed






















subsection \<open>The returned list of date directories\<close>

lemma digit_in_digits: "digit k \<in> set ''0123456789''"
  unfolding digit_def by (rule nth_mem) simp

lemma digit_not_slash: "digit k \<noteq> CHR ''/''" "CHR ''/'' \<noteq> digit k"
  using digit_in_digits[of k] by auto

lemma digit_eq_iff: "(digit a = digit b) = (a mod 10 = b mod 10)"
proof -
  have "distinct ''0123456789''" by simp
  then show ?thesis
    unfolding digit_def by (subst nth_eq_iff_index_eq) simp_all
qed

lemma strftime_ymd_digits:
  assumes "valid_datetime d"
  shows "strftime_ymd d =
    [digit (year d div 1000), digit (year d div 100), digit (year d div 10), digit (year d),
     digit (month d div 10), digit (month d), digit (day d div 10), digit (day d)]"
proof -
  from assms have "year d < 10000" "month d < 100" "day d \<le> days_in_month (year d) (month d)"
    by (simp_all add: valid_datetime_def)
  moreover have "days_in_month (year d) (month d) \<le> 31" by (simp add: days_in_month_def)
  ultimately show ?thesis by (simp add: strftime_ymd_def zfill4 zfill2)
qed

lemma strftime_ymd_no_slash:
  "valid_datetime d \<Longrightarrow> CHR ''/'' \<notin> set (strftime_ymd d)"
  by (simp add: strftime_ymd_digits digit_not_slash)

lemma two_digits_eq:
  fixes a b :: nat
  assumes "a div 10 = b div 10" "a mod 10 = b mod 10"
  shows "a = b"
  using assms by (metis div_mult_mod_eq)

lemma small_mod: "(n::nat) < 10 \<Longrightarrow> n mod 10 = n"
  by simp

lemma strftime_ymd_inj:
  assumes a: "valid_datetime a" and b: "valid_datetime b"
    and e: "strftime_ymd a = strftime_ymd b"
  shows "year a = year b \<and> month a = month b \<and> day a = day b"
proof -
  from a b have ya: "year a < 10000" and yb: "year b < 10000"
    and ma: "month a \<le> 12" and mb: "month b \<le> 12"
    and da: "day a \<le> days_in_month (year a) (month a)"
    and db: "day b \<le> days_in_month (year b) (month b)"
    by (simp_all add: valid_datetime_def)
  have d31: "days_in_month (year a) (month a) \<le> 31" "days_in_month (year b) (month b) \<le> 31"
    by (simp_all add: days_in_month_def)
  from e have q: "(year a div 1000) mod 10 = (year b div 1000) mod 10"
    "(year a div 100) mod 10 = (year b div 100) mod 10"
    "(year a div 10) mod 10 = (year b div 10) mod 10"
    "year a mod 10 = year b mod 10"
    "(month a div 10) mod 10 = (month b div 10) mod 10" "month a mod 10 = month b mod 10"
    "(day a div 10) mod 10 = (day b div 10) mod 10" "day a mod 10 = day b mod 10"
    by (simp_all add: strftime_ymd_digits[OF a] strftime_ymd_digits[OF b] digit_eq_iff)
  have y3: "year a div 1000 = year b div 1000"
    using q(1) ya yb by (simp add: small_mod)
  have "year a div 100 div 10 = year b div 100 div 10"
    using y3 by (simp add: div_mult2_eq[symmetric])
  then have y2: "year a div 100 = year b div 100" using q(2) by (rule two_digits_eq)
  have "year a div 10 div 10 = year b div 10 div 10"
    using y2 by (simp add: div_mult2_eq[symmetric])
  then have y1: "year a div 10 = year b div 10" using q(3) by (rule two_digits_eq)
  have y: "year a = year b" using y1 q(4) by (rule two_digits_eq)
  have "month a div 10 = month b div 10" using q(5) ma mb by (simp add: small_mod)
  then have m: "month a = month b" using q(6) by (rule two_digits_eq)
  have "day a div 10 = day b div 10" using q(7) da db d31 by (simp add: small_mod)
  then have d: "day a = day b" using q(8) by (rule two_digits_eq)
  from y m d show ?thesis by simp
qed

lemma basename_append:
  assumes "CHR ''/'' \<notin> set b" and "a = [] \<or> last a = CHR ''/''"
  shows "basename (a @ b) = b"
proof (cases "a = []")
  case True
  have t: "takeWhile (\<lambda>c. c \<noteq> CHR ''/'') (rev b) = rev b"
    using assms(1) by (auto simp add: takeWhile_eq_all_conv)
  show ?thesis by (simp only: basename_def True append_Nil t rev_rev_ident)
next
  case False
  with assms(2) obtain a' where a: "a = a' @ [CHR ''/'']"
    by (metis append_butlast_last_id)
  have "takeWhile (\<lambda>c. c \<noteq> CHR ''/'') (rev b @ CHR ''/'' # rev a') = rev b"
    using assms(1) by (subst takeWhile_append2) auto
  then show ?thesis by (simp add: basename_def a)
qed

lemma basename_path_join:
  assumes "CHR ''/'' \<notin> set b"
  shows "basename (path_join a b) = b"
proof -
  from assms have nb: "\<not> (b \<noteq> [] \<and> hd b = CHR ''/'')" by (cases b) auto
  show ?thesis
  proof (cases "a = [] \<or> last a = CHR ''/''")
    case True
    with nb basename_append[OF assms True] show ?thesis by (auto simp add: path_join_def)
  next
    case False
    have "basename ((a @ [CHR ''/'']) @ b) = b"
      by (rule basename_append[OF assms]) simp
    with nb False show ?thesis by (auto simp add: path_join_def)
  qed
qed

lemma foldl_day_step:
  "ks \<noteq> [] \<Longrightarrow>
   foldl (\<lambda>ks k. day_step k ks) ks xs = butlast ks @ remdups_adj (last ks # xs)"
proof (induction xs arbitrary: ks)
  case Nil
  then show ?case by simp
next
  case (Cons x xs)
  show ?case
  proof (cases "x = last ks")
    case True
    with Cons show ?thesis by (simp add: day_step_def)
  next
    case False
    have "foldl (\<lambda>ks k. day_step k ks) (ks @ [x]) xs =
            butlast (ks @ [x]) @ remdups_adj (last (ks @ [x]) # xs)"
      by (rule Cons.IH) simp
    with False Cons.prems show ?thesis by (simp add: day_step_def)
  qed
qed

lemma foldl_day_step_Nil: "foldl (\<lambda>ks k. day_step k ks) [] xs = remdups_adj xs"
proof (cases xs)
  case Nil
  then show ?thesis by simp
next
  case (Cons x xs')
  have "foldl (\<lambda>ks k. day_step k ks) [x] xs' = butlast [x] @ remdups_adj (last [x] # xs')"
    by (rule foldl_day_step) simp
  with Cons show ?thesis by (simp add: day_step_def)
qed

lemma manifest_step_map:
  assumes "CHR ''/'' \<notin> set (strftime_ymd d)" and "\<forall>k\<in>set ks. CHR ''/'' \<notin> set k"
  shows "manifest_step c d (map (path_join (real_outroot c)) ks) =
           map (path_join (real_outroot c)) (day_step (strftime_ymd d) ks)"
proof (cases "ks = []")
  case True
  then show ?thesis by (simp add: manifest_step_def day_step_def)
next
  case False
  then have "last ks \<in> set ks" by simp
  with assms(2) have "CHR ''/'' \<notin> set (last ks)" by blast
  then have "basename (path_join (real_outroot c) (last ks)) = last ks"
    by (rule basename_path_join)
  with False show ?thesis by (simp add: manifest_step_def day_step_def last_map)
qed

lemma day_step_no_slash:
  assumes "CHR ''/'' \<notin> set k" and "\<forall>x\<in>set ks. CHR ''/'' \<notin> set x"
  shows "\<forall>x\<in>set (day_step k ks). CHR ''/'' \<notin> set x"
  using assms by (auto simp add: day_step_def)

lemma foldl_manifest_step:
  assumes "\<forall>d\<in>set ds. valid_datetime d" and "\<forall>k\<in>set ks. CHR ''/'' \<notin> set k"
  shows "foldl (\<lambda>m d. manifest_step c d m) (map (path_join (real_outroot c)) ks) ds =
           map (path_join (real_outroot c))
             (foldl (\<lambda>ks k. day_step k ks) ks (map strftime_ymd ds))"
  using assms
proof (induction ds arbitrary: ks)
  case Nil
  then show ?case by simp
next
  case (Cons d ds)
  from Cons.prems(1) have s: "CHR ''/'' \<notin> set (strftime_ymd d)"
    by (simp add: strftime_ymd_no_slash)
  have a: "\<forall>k\<in>set (day_step (strftime_ymd d) ks). CHR ''/'' \<notin> set k"
    by (rule day_step_no_slash[OF s Cons.prems(2)])
  from Cons.prems(1) have b: "\<forall>d\<in>set ds. valid_datetime d" by simp
  have "foldl (\<lambda>m d. manifest_step c d m)
      (map (path_join (real_outroot c)) (day_step (strftime_ymd d) ks)) ds =
    map (path_join (real_outroot c))
      (foldl (\<lambda>ks k. day_step k ks) (day_step (strftime_ymd d) ks) (map strftime_ymd ds))"
    by (rule Cons.IH[OF b a])
  then show ?case by (simp add: manifest_step_map[OF s Cons.prems(2)])
qed

lemma distinct_remdups_adj_blocks:
  assumes "sorted (map k xs)"
    and "\<forall>x\<in>set xs. \<forall>y\<in>set xs. (f x = f y) = (k x = (k y :: nat))"
  shows "distinct (remdups_adj (map f xs))"
  using assms
proof (induction xs rule: induct_list012)
  case 1
  then show ?case by simp
next
  case (2 x)
  then show ?case by simp
next
  case (3 x y zs)
  from 3(3) have s: "sorted (map k (y # zs))" by simp
  from 3(4) have e: "\<forall>a\<in>set (y # zs). \<forall>b\<in>set (y # zs). (f a = f b) = (k a = k b)" by simp
  from 3(2)[OF s e] have IH: "distinct (remdups_adj (map f (y # zs)))" .
  show ?case
  proof (cases "f x = f y")
    case True
    with IH show ?thesis by simp
  next
    case False
    have "f x \<notin> set (map f (y # zs))"
    proof
      assume "f x \<in> set (map f (y # zs))"
      then obtain z where z: "z \<in> set (y # zs)" "f x = f z" by auto
      have mem: "x \<in> set (x # y # zs)" "y \<in> set (x # y # zs)" "z \<in> set (x # y # zs)"
        using z(1) by auto
      from 3(4) mem(1,3) have "(f x = f z) = (k x = k z)" by blast
      with z(2) have kz: "k x = k z" by simp
      from 3(3) z(1) have "k x \<le> k y" "k y \<le> k z" by auto
      with kz have "k x = k y" by simp
      moreover from 3(4) mem(1,2) have "(f x = f y) = (k x = k y)" by blast
      ultimately have "f x = f y" by simp
      with False show False by simp
    qed
    with IH False show ?thesis by simp
  qed
qed

lemma add_hour_ordinal:
  assumes v: "valid_datetime d" and a: "add_hour d = Some e"
  shows "toordinal d \<le> toordinal e"
proof (cases "hour d < 23")
  case True
  with a have "e = d\<lparr>hour := hour d + 1\<rparr>" by (simp add: add_hour_def)
  then show ?thesis by (simp add: toordinal_def)
next
  case False
  with a obtain f where f: "next_day d = Some f" and e: "e = f\<lparr>hour := 0\<rparr>"
    by (auto simp add: add_hour_def)
  from next_day_valid[OF v f] e show ?thesis by (simp add: toordinal_def)
qed

lemma cursors_valid:
  assumes "valid_datetime d"
  shows "(\<forall>x\<in>set (cursors n d). valid_datetime x \<and> toordinal d \<le> toordinal x) \<and>
         sorted (map toordinal (cursors n d))"
  using assms
proof (induction n arbitrary: d)
  case 0
  then show ?case by simp
next
  case (Suc n)
  show ?case
  proof (cases "add_hour d")
    case None
    with Suc.prems show ?thesis by simp
  next
    case (Some e)
    from add_hour_valid[OF Suc.prems Some] have ve: "valid_datetime e" by simp
    from add_hour_ordinal[OF Suc.prems Some] have le: "toordinal d \<le> toordinal e" .
    from Suc.IH[OF ve] have
      IH: "\<forall>x\<in>set (cursors n e). valid_datetime x \<and> toordinal e \<le> toordinal x"
        "sorted (map toordinal (cursors n e))"
      by simp_all
    from IH(1) le have "\<forall>x\<in>set (cursors n e). toordinal d \<le> toordinal x" by fastforce
    with IH Suc.prems Some show ?thesis by simp
  qed
qed

lemma passes_manifest:
  assumes "passes w c n date st m = Some (Inr (d, m', st'))"
  shows "m' = foldl (\<lambda>m d. manifest_step c d m) m (cursors n date) \<and>
         length (cursors n date) = n"
  using assms
proof (induction n arbitrary: date st m)
  case 0
  then show ?case by simp
next
  case (Suc n)
  from Suc.prems obtain st1 date' where
    a: "add_hour date = Some date'"
    and p: "passes w c n date' st1 (manifest_step c date m) = Some (Inr (d, m', st'))"
    by (auto split: option.splits sum.splits)
  from Suc.IH[OF p] a show ?case by simp
qed

lemma same_day_iff:
  assumes a: "valid_datetime a" and b: "valid_datetime b"
  shows "(strftime_ymd a = strftime_ymd b) = (toordinal a = toordinal b)"
proof
  assume "strftime_ymd a = strftime_ymd b"
  from strftime_ymd_inj[OF a b this] show "toordinal a = toordinal b"
    by (simp add: toordinal_def)
next
  assume e: "toordinal a = toordinal b"
  from ymd_trichotomy[of b a] toordinal_less[OF a b] toordinal_less[OF b a] e
  have "year a = year b \<and> month a = month b \<and> day a = day b" by auto
  then show "strftime_ymd a = strftime_ymd b" by (simp add: strftime_ymd_def)
qed

lemma map_basename_path_join:
  assumes "\<forall>k\<in>set ks. CHR ''/'' \<notin> set k"
  shows "map basename (map (path_join r) ks) = ks"
  using assms by (induction ks) (simp_all add: basename_path_join)

text \<open>
  C1. When the start and the end of the window are datetimes with the end not before the
  start and the run returns a list, the list is the directories of the days of the hourly
  cursors, in the order of the cursors, a day entered when it differs from the day before
  it (\<open>remdups_adj\<close>); its base names are those days; no entry occurs twice; and the update
  leaves the list as it is when the cursor's day is the base name of the last entry.
\<close>

theorem manifest_days:
  assumes p: "prepare w cf = Inr (c, start, stop, st)"
    and v1: "valid_datetime start" and v2: "valid_datetime stop" and ge: "dt_ge stop start"
    and r: "run_download_goes_ir_vis_l1b_glm_l2_data w cf = Some (Inr (M, st'))"
  shows "length (cursors ((total_us stop - total_us start) div hour_us + 1) start) =
           (total_us stop - total_us start) div hour_us + 1 \<and>
         M = map (path_join (real_outroot c))
               (remdups_adj (map strftime_ymd
                  (cursors ((total_us stop - total_us start) div hour_us + 1) start))) \<and>
         map basename M =
           remdups_adj (map strftime_ymd
             (cursors ((total_us stop - total_us start) div hour_us + 1) start)) \<and>
         distinct (map basename M) \<and> distinct M \<and>
         (\<forall>d m. m \<noteq> [] \<longrightarrow> strftime_ymd d = basename (last m) \<longrightarrow> manifest_step c d m = m)"
proof -
  let ?n = "(total_us stop - total_us start) div hour_us"
  define ds where "ds = cursors (?n + 1) start"
  let ?ks = "remdups_adj (map strftime_ymd ds)"
  have "run_download_goes_ir_vis_l1b_glm_l2_data w cf = loop w c stop start st []"
    using p by (simp add: run_download_goes_ir_vis_l1b_glm_l2_data_def)
  also have "\<dots> = finish (passes w c (Suc ?n) start st [])"
    by (rule loop_passes[OF v1 v2 ge refl])
  finally have "finish (passes w c (Suc ?n) start st []) = Some (Inr (M, st'))"
    using r by simp
  then obtain d where "passes w c (Suc ?n) start st [] = Some (Inr (d, M, st'))"
    by (auto simp add: finish_def split: option.splits sum.splits)
  then have ps: "passes w c (?n + 1) start st [] = Some (Inr (d, M, st'))"
    by (simp only: Suc_eq_plus1)
  from passes_manifest[OF ps] have
    M: "M = foldl (\<lambda>m d. manifest_step c d m) [] ds"
    and len: "length ds = ?n + 1" by (simp_all only: ds_def)
  from cursors_valid[OF v1, of "?n + 1"] have
    val: "\<forall>x\<in>set ds. valid_datetime x"
    and srt: "sorted (map toordinal ds)" by (simp_all only: ds_def) blast
  have "foldl (\<lambda>m d. manifest_step c d m) (map (path_join (real_outroot c)) []) ds =
        map (path_join (real_outroot c))
          (foldl (\<lambda>ks k. day_step k ks) [] (map strftime_ymd ds))"
    by (rule foldl_manifest_step[OF val]) simp
  with M have M': "M = map (path_join (real_outroot c)) ?ks"
    by (simp add: foldl_day_step_Nil)
  have slash: "\<forall>k\<in>set ?ks. CHR ''/'' \<notin> set k"
    using val by (auto simp add: strftime_ymd_no_slash)
  have bn: "map basename M = ?ks"
    unfolding M' by (rule map_basename_path_join[OF slash])
  have "\<forall>x\<in>set ds. \<forall>y\<in>set ds.
          (strftime_ymd x = strftime_ymd y) = (toordinal x = toordinal y)"
    using val same_day_iff by blast
  from distinct_remdups_adj_blocks[OF srt this] have dk: "distinct ?ks" by simp
  with bn have db: "distinct (map basename M)" by simp
  then have dM: "distinct M" by (simp add: distinct_map)
  have stay: "\<forall>d m. m \<noteq> [] \<longrightarrow> strftime_ymd d = basename (last m) \<longrightarrow> manifest_step c d m = m"
    by (simp add: manifest_step_def)
  from len M' bn db dM stay show ?thesis unfolding ds_def by blast
qed

lemma body_disabled:
  assumes "no_ir (cfg c) = True" "no_vis (cfg c) = True" "no_irdiff (cfg c) = True"
    "no_glm (cfg c) = True"
  shows "body w c date st = Some (Inr st)"
  using assms
  by (simp add: body_def and_then_def ir_step_def vis_step_def irdiff_step_def
      correlated_step_def glm_step_def)

lemma prepare_night:
  "prepare night_world night_config =
     Inr (hist_ctx night_config, night_start, night_end, init_state)"
  by (simp add: prepare_def night_world_def hist_world_def night_config_def hist_config_def
      hist_ctx_def index_def sector_code_def say_def lower_def lower_char_def upper_char_def
      Let_def)

lemma night_facts:
  "valid_datetime night_start" "valid_datetime night_end" "dt_ge night_end night_start"
  "add_hour night_start = Some (night_end\<lparr>minute := 0\<rparr>)"
  "add_hour (night_end\<lparr>minute := 0\<rparr>) = Some (night_end\<lparr>hour := Suc 0, minute := 0\<rparr>)"
  "dt_ge night_end (night_end\<lparr>minute := 0\<rparr>)"
  "\<not> dt_ge night_end (night_end\<lparr>hour := Suc 0, minute := 0\<rparr>)"
  "strftime_ymd night_start = ''20200601''"
  "strftime_ymd (night_end\<lparr>minute := 0\<rparr>) = ''20200602''"
  by (simp_all add: valid_datetime_def night_start_def night_end_def days_in_month_def
      dt_ge_def dt_fields_def add_hour_def next_day_def is_leap_def strftime_ymd_def
      zfill4 zfill2 digit_def)

lemma run_night:
  "run_download_goes_ir_vis_l1b_glm_l2_data night_world night_config =
     Some (Inr ([''/data/20200601'', ''/data/20200602''], init_state))"
proof -
  have b: "\<And>date st. body night_world (hist_ctx night_config) date st = Some (Inr st)"
    by (rule body_disabled) (simp_all add: hist_ctx_def night_config_def hist_config_def)
  show ?thesis
    apply (simp add: run_download_goes_ir_vis_l1b_glm_l2_data_def prepare_night)
    apply (subst loop.simps)
    apply (simp add: night_facts b)
    apply (subst loop.simps)
    apply (simp add: night_facts b)
    apply (subst loop.simps)
    apply (simp add: night_facts manifest_step_def hist_ctx_def path_join_def basename_def)
    done
qed

theorem manifest_days_witness:
  "prepare night_world night_config =
     Inr (hist_ctx night_config, night_start, night_end, init_state) \<and>
   valid_datetime night_start \<and> valid_datetime night_end \<and> dt_ge night_end night_start \<and>
   run_download_goes_ir_vis_l1b_glm_l2_data night_world night_config =
     Some (Inr ([''/data/20200601'', ''/data/20200602''], init_state)) \<and>
   map basename [''/data/20200601'', ''/data/20200602''] =
     remdups_adj (map strftime_ymd
       (cursors ((total_us night_end - total_us night_start) div hour_us + 1) night_start)) \<and>
   distinct [''/data/20200601'', ''/data/20200602'']"
  using manifest_days[OF prepare_night night_facts(1,2,3) run_night]
    prepare_night night_facts(1,2,3) run_night
  by blast

subsection \<open>The mirror key of the other copies\<close>

text \<open>
  Lines 186, 211, 237, 262, 299 and 315 copy to the day, the category and the base name of
  the blob, with a separator between them.
\<close>

lemma basename_no_slash: "CHR ''/'' \<notin> set (basename p)"
  by (auto simp add: basename_def dest: set_takeWhileD)

lemma mirror_key_layout:
  assumes v: "valid_datetime date"
    and cat: "cat \<noteq> []" "hd cat \<noteq> CHR ''/''" "last cat \<noteq> CHR ''/''"
  shows "mirror_key date cat i = strftime_ymd date @ ''/'' @ cat @ ''/'' @ basename i"
proof -
  have y: "strftime_ymd date \<noteq> []" "last (strftime_ymd date) \<noteq> CHR ''/''"
    by (simp_all add: strftime_ymd_digits[OF v] digit_not_slash)
  have j1: "path_join (strftime_ymd date) cat = strftime_ymd date @ CHR ''/'' # cat"
    using y cat by (simp add: path_join_def)
  have l: "last (strftime_ymd date @ CHR ''/'' # cat) = last cat" using cat(1) by simp
  have b: "\<not> (basename i \<noteq> [] \<and> hd (basename i) = CHR ''/'')"
    using basename_no_slash[of i] by (cases "basename i") auto
  show ?thesis
    unfolding mirror_key_def j1 using b l cat(3) by (auto simp add: path_join_def)
qed

end
